theory Spec2Isabelle
  imports Main
begin

section \<open>Object identities\<close>

text \<open>
  Component classes, component instances, templaters and template objects are JavaScript
  objects; the code keys its caches and its dependency map by their identity. An identity
  is a natural number here.
\<close>

type_synonym ident = nat

section \<open>Dependency resolver (ssr.ts, SSR.\_Rendering.Dependencies)\<close>

text \<open>
  The part of \<open>BaseTypes.BaseClass\<close> that \<open>buildMap\<close> reads: the optional tag name
  \<open>is\<close> and the optional list of dependencies (references to other classes). The field
  \<open>is\<close> is called \<open>is_tag\<close>, since \<open>is\<close> is a keyword of the proof language. The record
  is extended with the templates of a class where rendering needs them.
\<close>

record baseClassDeps =
  is_tag :: "string option"
  dependencies :: "ident list option"

text \<open>The classes of a program: which class object stands behind each identity.\<close>

type_synonym 'a classGraph = "ident \<Rightarrow> 'a baseClassDeps_scheme"

type_synonym depdendencyMap = "string \<rightharpoonup> ident"

text \<open>
  A \<open>for ... of\<close> loop whose body may fail to return: the loop stops returning as soon as
  one iteration does.
\<close>

fun forEach :: "('a \<Rightarrow> 's \<Rightarrow> 's option) \<Rightarrow> 'a list \<Rightarrow> 's \<Rightarrow> 's option" where
  "forEach body [] s = Some s"
| "forEach body (x # xs) s =
     (case body x s of None \<Rightarrow> None | Some s' \<Rightarrow> forEach body xs s')"

lemma forEach_mono [partial_function_mono]:
  assumes "\<And>x s. mono_option (\<lambda>f. B f x s)"
  shows "mono_option (\<lambda>f. forEach (B f) xs s)"
proof (induction xs arbitrary: s)
  case Nil
  show ?case by (simp add: option.const_mono)
next
  case (Cons x xs)
  have "mono_option (\<lambda>f. Option.bind (B f x s) (\<lambda>s'. forEach (B f) xs s'))"
    by (rule bind_mono [OF assms Cons])
  moreover have "\<And>f. Option.bind (B f x s) (\<lambda>s'. forEach (B f) xs s') = forEach (B f) (x # xs) s"
    by (simp split: option.splits)
  ultimately show ?case by simp
qed

text \<open>
  \<open>buildMap(element, map = {})\<close>: register the element under its tag name when
  \<open>element.is\<close> is truthy (present and not the empty string), then recurse into every
  dependency with the same map. The recursion has no visited set, so the function is
  partial: \<open>None\<close> is a call that does not return (in the engine, unbounded recursion ends
  in a stack overflow).
\<close>

partial_function (option) buildMap ::
  "'a classGraph \<Rightarrow> ident \<Rightarrow> depdendencyMap \<Rightarrow> depdendencyMap option" where
  "buildMap g element m =
     (let m1 = (case is_tag (g element) of
                  Some t \<Rightarrow> if t \<noteq> [] then m(t \<mapsto> element) else m
                | None \<Rightarrow> m)
      in forEach (\<lambda>dependency acc. buildMap g dependency acc)
           (case dependencies (g element) of None \<Rightarrow> [] | Some ds \<Rightarrow> ds) m1)"

subsection \<open>Vocabulary for the statements about \<open>buildMap\<close>\<close>

definition depsOf :: "'a classGraph \<Rightarrow> ident \<Rightarrow> ident list" where
  "depsOf g e = (case dependencies (g e) of None \<Rightarrow> [] | Some ds \<Rightarrow> ds)"

text \<open>The registration step of one call.\<close>

definition register :: "'a classGraph \<Rightarrow> ident \<Rightarrow> depdendencyMap \<Rightarrow> depdendencyMap" where
  "register g e m =
     (case is_tag (g e) of Some t \<Rightarrow> if t \<noteq> [] then m(t \<mapsto> e) else m | None \<Rightarrow> m)"










subsection \<open>Properties of \<open>buildMap\<close>\<close>


lemma buildMap_unfold:
  "buildMap g e m = forEach (buildMap g) (depsOf g e) (register g e m)"
  by (subst buildMap.simps) (simp add: depsOf_def register_def Let_def)























section \<open>Change-gated template memoizer (template-fn.ts)\<close>

unbundle bit_operations_syntax

subsection \<open>Data\<close>

text \<open>The \<open>const enum CHANGE_TYPE\<close>: a bit mask. \<open>CT_PROP\<close> is \<open>CHANGE_TYPE.PROP\<close>, and so on.\<close>

definition CT_PROP :: nat where "CT_PROP = 1"
definition CT_THEME :: nat where "CT_THEME = 2"
definition CT_NEVER :: nat where "CT_NEVER = 4"
definition CT_LANG :: nat where "CT_LANG = 8"
definition CT_ALWAYS :: nat where "CT_ALWAYS = 11"
definition CT_FORCE :: nat where "CT_FORCE = 27"

text \<open>
  A value stored as an attribute or a property. \<open>Other s\<close> is a primitive that is neither
  a string nor \<open>undefined\<close>, or an object that is not iterable, given by the text \<open>s\<close> that
  \<open>String(value)\<close> yields; \<open>Iterable s ts\<close> is an iterable object, given by \<open>String(value)\<close>
  and by the texts of its elements.
\<close>

datatype jsvalue = Undefined | Str string | Other string | Iterable string "string list"

text \<open>
  An object used as a string-keyed dictionary (\<open>StringMap\<close>, \<open>Attributes\<close>): its own
  enumerable properties in enumeration order. What it inherits from \<open>Object.prototype\<close>
  is added by the reads, tests and assignments that follow the prototype chain.
\<close>

type_synonym jsobject = "(string \<times> jsvalue) list"

text \<open>
  What a template function may return (\<open>TemplateRenderResult\<close>, \<open>null\<close> or nothing):
  a string, an element (given by its \<open>innerHTML\<close>), an object with a \<open>toText\<close> method
  (given by the text the method returns), an object with \<open>strings\<close> and \<open>values\<close> (the
  values given by their text), or some other object.
\<close>

datatype renderResult =
    RNull
  | RUndefined
  | RString string
  | RElement string
  | RToText string
  | RStringsValues "string list" "string list"
  | ROther

text \<open>JavaScript truthiness of such a value: \<open>if (cached)\<close>.\<close>

fun truthy :: "renderResult \<Rightarrow> bool" where
  "truthy RNull = False"
| "truthy RUndefined = False"
| "truthy (RString s) = (s \<noteq> [])"
| "truthy _ = True"

text \<open>
  Exceptions. \<open>Thrown msg\<close> is an exception raised by user code (a template function);
  \<open>TypeError\<close> is the engine's error on calling a method of \<open>null\<close>; \<open>NoTextForm\<close> is the
  error of \<open>_templateResultToText\<close>; the last two are the wrappers of ssr.ts.
\<close>

datatype error =
    TypeError
  | Thrown string
  | NoTextForm
  | RenderError error
  | CSSParseError error string

text \<open>
  The configuration of a component's properties (\<open>props.__config\<close>): the keys of its
  \<open>reflect\<close> and \<open>priv\<close> objects, each absent (\<open>None\<close>) or present.
\<close>

record propsConfig =
  reflect :: "string list option"
  priv :: "string list option"

text \<open>
  What a template function can read of the component it renders (its \<open>this\<close>): the tag
  name, the attributes \<open>getAttribute\<close> answers from, the \<open>props\<close> object with its
  configuration (\<open>None\<close> when the component has no \<open>props\<close> or no \<open>__config\<close>), and the
  theme \<open>getTheme()\<close> returns (\<open>None\<close> when the component has no \<open>getTheme\<close>).
\<close>

record componentState =
  tagName :: string
  attribs :: jsobject
  props :: jsobject
  config :: "propsConfig option"
  getTheme :: "jsobject option"

text \<open>A component instance: an object identity and its state.\<close>

record component =
  cid :: ident
  cstate :: componentState

text \<open>
  \<open>TemplateRenderFunction\<close>, called as
  \<open>_template.call(component, templater, component.props, theme, changeType)\<close>: the
  component's state (which holds \<open>props\<close> and the theme), the templater and the change
  type. It returns a value or throws.
\<close>

type_synonym templateRenderFunction =
  "componentState \<Rightarrow> ident \<Rightarrow> nat \<Rightarrow> error + renderResult"

text \<open>
  A \<open>TemplateFn\<close> object: its identity, \<open>_template\<close> (which may be \<open>null\<close>) and \<open>changeOn\<close>.
  The renderer is left out: only \<open>render\<close> and \<open>renderIfNew\<close> use it.
\<close>

record templateFn =
  tid :: ident
  template :: "templateRenderFunction option"
  changeOn :: nat

text \<open>
  The module-level cache \<open>templaterMap\<close>: weak maps nested three deep, from templaters to
  components to template objects to the last result.
\<close>

type_synonym templateMap = "ident \<rightharpoonup> renderResult"
type_synonym componentTemplateMap = "ident \<rightharpoonup> templateMap"

text \<open>
  The state a render call works on: the cache, and a log of the calls made to template
  functions (template, templater, component, change type). The log is not a variable of
  the source; it records the calls so that statements can speak about them.
\<close>

record world =
  templaterMap :: "ident \<rightharpoonup> componentTemplateMap"
  invoked :: "(ident \<times> ident \<times> ident \<times> nat) list"

record renderOutcome =
  changed :: bool
  rendered :: renderResult

subsection \<open>\<open>TemplateFn._renderWithTemplater\<close>\<close>

text \<open>\<open>templateMap.get(this)\<close>: \<open>undefined\<close> when there is no entry.\<close>

definition mapGet :: "templateMap \<Rightarrow> ident \<Rightarrow> renderResult" where
  "mapGet tm k = (case tm k of None \<Rightarrow> RUndefined | Some v \<Rightarrow> v)"

text \<open>
  The call \<open>this._template.call(...)\<close>. Calling a \<open>null\<close> template is a \<open>TypeError\<close>.
\<close>

definition callTemplate ::
  "templateFn \<Rightarrow> component \<Rightarrow> ident \<Rightarrow> nat \<Rightarrow> world \<Rightarrow> (error + renderResult) \<times> world" where
  "callTemplate this c templater changeType w =
     (case template this of
        None \<Rightarrow> (Inl TypeError, w)
      | Some f \<Rightarrow>
          (f (cstate c) templater changeType,
           w\<lparr>invoked := invoked w @ [(tid this, templater, cid c, changeType)]\<rparr>))"

text \<open>
  The innermost map of a (templater, component) pair, \<open>templateMap\<close> in the source; an
  outer map that is missing is created empty on first use.
\<close>

definition getTemplateMap :: "world \<Rightarrow> ident \<Rightarrow> ident \<Rightarrow> templateMap" where
  "getTemplateMap w templater component =
     (case templaterMap w templater of
        None \<Rightarrow> Map.empty
      | Some ctm \<Rightarrow> (case ctm component of None \<Rightarrow> Map.empty | Some tm \<Rightarrow> tm))"

text \<open>
  The world in which the innermost map of the pair is \<open>tm\<close>: the effect of creating the
  outer maps and of \<open>templateMap.set\<close>, which updates the map object held by them.
\<close>

definition setTemplateMap :: "ident \<Rightarrow> ident \<Rightarrow> templateMap \<Rightarrow> world \<Rightarrow> world" where
  "setTemplateMap templater component tm w =
     w\<lparr>templaterMap := (templaterMap w)(templater \<mapsto>
          (case templaterMap w templater of None \<Rightarrow> Map.empty | Some ctm \<Rightarrow> ctm)
            (component \<mapsto> tm))\<rparr>"

text \<open>
  \<open>_renderWithTemplater(changeType, component, templater)\<close>. A missing templater, or one
  that is neither an object nor a function (\<open>None\<close>), is replaced by the component. The
  two outer weak maps are created when missing. The assignment of \<open>jsx\<close> to the
  templater touches neither the cache nor the result and is left out.
\<close>

definition renderWithTemplater ::
  "templateFn \<Rightarrow> nat \<Rightarrow> component \<Rightarrow> ident option \<Rightarrow> world
     \<Rightarrow> (error + renderOutcome) \<times> world" where
  "renderWithTemplater this changeType c templater0 w0 =
     (let templater = (case templater0 of None \<Rightarrow> cid c | Some t \<Rightarrow> t);
          templateMap = getTemplateMap w0 templater (cid c);
          w = setTemplateMap templater (cid c) templateMap w0
      in if changeOn this AND CT_NEVER \<noteq> 0 then
           (let cached = mapGet templateMap (tid this) in
            if truthy cached then (Inr \<lparr>changed = False, rendered = cached\<rparr>, w)
            else
              (case (if template this = None then (Inr RNull, w)
                     else callTemplate this c templater changeType w) of
                 (Inl e, w1) \<Rightarrow> (Inl e, w1)
               | (Inr r, w1) \<Rightarrow>
                   (Inr \<lparr>changed = True, rendered = r\<rparr>,
                    setTemplateMap templater (cid c) (templateMap(tid this \<mapsto> r)) w1)))
         else if changeOn this AND changeType \<noteq> 0 \<or> templateMap (tid this) = None then
           (case callTemplate this c templater changeType w of
              (Inl e, w1) \<Rightarrow> (Inl e, w1)
            | (Inr r, w1) \<Rightarrow>
                (Inr \<lparr>changed = True, rendered = r\<rparr>,
                 setTemplateMap templater (cid c) (templateMap(tid this \<mapsto> r)) w1))
         else (Inr \<lparr>changed = False, rendered = mapGet templateMap (tid this)\<rparr>, w))"

subsection \<open>Vocabulary for the statements about the memoizer\<close>

text \<open>The cache entry of a (templater, component, template) triple, if there is one.\<close>

definition cacheEntry :: "world \<Rightarrow> ident \<Rightarrow> ident \<Rightarrow> ident \<Rightarrow> renderResult option" where
  "cacheEntry w templater component tmpl =
     (case templaterMap w templater of
        None \<Rightarrow> None
      | Some ctm \<Rightarrow> (case ctm component of None \<Rightarrow> None | Some tm \<Rightarrow> tm tmpl))"

text \<open>The templater a call uses as its cache key.\<close>

definition templaterKey :: "ident option \<Rightarrow> component \<Rightarrow> ident" where
  "templaterKey templater0 c = (case templater0 of None \<Rightarrow> cid c | Some t \<Rightarrow> t)"

definition emptyWorld :: world where
  "emptyWorld = \<lparr>templaterMap = Map.empty, invoked = []\<rparr>"

definition someState :: componentState where
  "someState = \<lparr>tagName = ''x-a'', attribs = [], props = [], config = None, getTheme = None\<rparr>"

definition someComponent :: component where
  "someComponent = \<lparr>cid = 1, cstate = someState\<rparr>"

text \<open>A template that reacts to property changes and whose function throws.\<close>

definition throwingTemplate :: templateFn where
  "throwingTemplate =
     \<lparr>tid = 7, template = Some (\<lambda>_ _ _. Inl (Thrown ''boom'')), changeOn = CT_PROP\<rparr>"

text \<open>A template that reacts to property changes and renders its change type.\<close>

definition propTemplate :: templateFn where
  "propTemplate =
     \<lparr>tid = 8,
      template = Some (\<lambda>_ _ ct. Inr (RString (if ct = CT_PROP then ''prop'' else ''other''))),
      changeOn = CT_PROP\<rparr>"

text \<open>A \<open>NEVER\<close> template whose function returns the empty string.\<close>

definition emptyStringTemplate :: templateFn where
  "emptyStringTemplate =
     \<lparr>tid = 9, template = Some (\<lambda>_ _ _. Inr (RString [])), changeOn = CT_NEVER\<rparr>"

text \<open>A template that renders \<open>ok\<close>, except on a theme change, where its function throws.\<close>

definition flakyTemplate :: templateFn where
  "flakyTemplate =
     \<lparr>tid = 10,
      template = Some (\<lambda>_ _ ct. if ct = CT_THEME then Inl (Thrown ''boom'') else Inr (RString ''ok'')),
      changeOn = CT_ALWAYS\<rparr>"

text \<open>The world after one render of a template for \<open>someComponent\<close> in the empty world.\<close>

definition afterFirst :: "templateFn \<Rightarrow> nat \<Rightarrow> world" where
  "afterFirst t ct = snd (renderWithTemplater t ct someComponent None emptyWorld)"

text \<open>A sequence of render calls for one (templater, component) pair.\<close>

fun renderMany ::
  "templateFn \<Rightarrow> component \<Rightarrow> ident option \<Rightarrow> nat list \<Rightarrow> world
     \<Rightarrow> (error + renderOutcome) list \<times> world" where
  "renderMany this c templater [] w = ([], w)"
| "renderMany this c templater (ct # cts) w =
     (case renderWithTemplater this ct c templater w of
        (r, w1) \<Rightarrow> (case renderMany this c templater cts w1 of (rs, w2) \<Rightarrow> (r # rs, w2)))"

subsection \<open>Properties of the memoizer\<close>


lemma cacheEntry_setTemplateMap:
  "cacheEntry (setTemplateMap k1 k2 tm w) a b c =
     (if a = k1 \<and> b = k2 then tm c else cacheEntry w a b c)"
  by (auto simp: cacheEntry_def setTemplateMap_def split: option.splits)

lemma getTemplateMap_entry: "getTemplateMap w k1 k2 k3 = cacheEntry w k1 k2 k3"
  by (auto simp: cacheEntry_def getTemplateMap_def split: option.splits)

lemma invoked_setTemplateMap: "invoked (setTemplateMap k1 k2 tm w) = invoked w"
  by (simp add: setTemplateMap_def)

lemma cacheEntry_invoked_update: "cacheEntry (w\<lparr>invoked := l\<rparr>) = cacheEntry w"
  by (simp add: cacheEntry_def fun_eq_iff)

lemma cacheEntry_touch:
  "cacheEntry (setTemplateMap k1 k2 (getTemplateMap w k1 k2) w) = cacheEntry w"
  by (auto simp: fun_eq_iff cacheEntry_setTemplateMap getTemplateMap_entry)

lemma callTemplate_result:
  "callTemplate this c templater changeType w =
     (case template this of
        None \<Rightarrow> (Inl TypeError, w)
      | Some f \<Rightarrow> (f (cstate c) templater changeType,
           w\<lparr>invoked := invoked w @ [(tid this, templater, cid c, changeType)]\<rparr>))"
  by (simp add: callTemplate_def)

text \<open>
  C6. If the template function throws during a render call (the call invokes it, and it
  throws at these arguments), the call ends with the same exception, and every cache
  entry, that of the call's own (templater, component, template) triple included, is what
  it was before the call: an existing result is kept and no entry is created.
\<close>

theorem render_throw_leaves_cache:
  assumes "template this = Some f"
    and "f (cstate c) (templaterKey templater c) changeType = Inl e"
    and "renderWithTemplater this changeType c templater w = (res, w')"
    and "invoked w' \<noteq> invoked w"
  shows "res = Inl e \<and> (\<forall>k1 k2 k3. cacheEntry w' k1 k2 k3 = cacheEntry w k1 k2 k3)"
  using assms
  by (auto simp: renderWithTemplater_def callTemplate_def templaterKey_def Let_def
      cacheEntry_touch cacheEntry_invoked_update invoked_setTemplateMap
      split: if_splits)


lemma CT_simps:
  "CT_PROP AND CT_NEVER = 0" "CT_ALWAYS AND CT_NEVER = 0" "CT_NEVER AND CT_NEVER = 4"
  "CT_PROP AND CT_PROP = 1" "CT_PROP AND CT_THEME = 0" "CT_ALWAYS AND CT_THEME = 2"
  "CT_ALWAYS AND CT_PROP = 1" "CT_PROP \<noteq> CT_THEME" "CT_THEME \<noteq> CT_PROP" "0 < CT_NEVER" "0 < CT_PROP"
  by (simp_all add: CT_PROP_def CT_NEVER_def CT_ALWAYS_def CT_THEME_def)

lemma afterFirst_flaky:
  "afterFirst flakyTemplate CT_PROP =
     \<lparr>templaterMap = [1 \<mapsto> [1 \<mapsto> [10 \<mapsto> RString ''ok'']]], invoked = [(10, 1, 1, CT_PROP)]\<rparr>"
  by (simp add: afterFirst_def renderWithTemplater_def callTemplate_def flakyTemplate_def
      someComponent_def emptyWorld_def getTemplateMap_def setTemplateMap_def mapGet_def CT_simps Let_def)

theorem render_throw_leaves_cache_witness:
  "cacheEntry (afterFirst flakyTemplate CT_PROP) 1 1 10 = Some (RString ''ok'') \<and>
   fst (renderWithTemplater flakyTemplate CT_THEME someComponent None (afterFirst flakyTemplate CT_PROP))
     = Inl (Thrown ''boom'') \<and>
   cacheEntry (snd (renderWithTemplater flakyTemplate CT_THEME someComponent None
      (afterFirst flakyTemplate CT_PROP))) 1 1 10 = Some (RString ''ok'')"
proof -
  let ?w = "afterFirst flakyTemplate CT_PROP"
  let ?r = "renderWithTemplater flakyTemplate CT_THEME someComponent None ?w"
  have e: "cacheEntry ?w 1 1 10 = Some (RString ''ok'')"
    by (simp add: afterFirst_flaky cacheEntry_def)
  have i: "invoked (snd ?r) \<noteq> invoked ?w"
    by (simp add: afterFirst_flaky renderWithTemplater_def callTemplate_def flakyTemplate_def
      someComponent_def getTemplateMap_def setTemplateMap_def mapGet_def CT_simps Let_def)
  let ?f = "\<lambda>(_::componentState) (_::ident) ct.
      if ct = CT_THEME then Inl (Thrown ''boom'') else Inr (RString ''ok'')"
  have t: "template flakyTemplate = Some ?f" by (simp add: flakyTemplate_def)
  have f: "?f (cstate someComponent) (templaterKey None someComponent) CT_THEME = Inl (Thrown ''boom'')"
    by simp
  have r: "?r = (fst ?r, snd ?r)" by simp
  have "fst ?r = Inl (Thrown ''boom'') \<and>
      (\<forall>k1 k2 k3. cacheEntry (snd ?r) k1 k2 k3 = cacheEntry ?w k1 k2 k3)"
    by (rule render_throw_leaves_cache [OF t f r i])
  with e show ?thesis by simp
qed

text \<open>
  C2. For a template whose mask does not include \<open>NEVER\<close>: a render call returns
  \<open>changed = false\<close> if and only if the triple has a cache entry and the change reason
  shares no bit with the mask, and then it returns the cached result, calls nothing and
  leaves the cache as it is. In every other case the template function is called, its
  result overwrites the entry and is returned with \<open>changed = true\<close>. (A call of the
  template function that throws returns no result: the render call throws and the cache
  is left as it is, which is C6.)
\<close>

theorem render_reuse_iff:
  assumes "changeOn this AND CT_NEVER = 0"
    and "renderWithTemplater this changeType c templater w = (res, w')"
  shows "((\<exists>r. res = Inr \<lparr>changed = False, rendered = r\<rparr>) \<longleftrightarrow>
            (cacheEntry w (templaterKey templater c) (cid c) (tid this) \<noteq> None
               \<and> changeOn this AND changeType = 0))
       \<and> (\<forall>r0. cacheEntry w (templaterKey templater c) (cid c) (tid this) = Some r0
               \<and> changeOn this AND changeType = 0 \<longrightarrow>
            res = Inr \<lparr>changed = False, rendered = r0\<rparr> \<and> invoked w' = invoked w
              \<and> cacheEntry w' = cacheEntry w)
       \<and> (\<forall>f. template this = Some f
               \<and> \<not> (cacheEntry w (templaterKey templater c) (cid c) (tid this) \<noteq> None
                     \<and> changeOn this AND changeType = 0) \<longrightarrow>
            invoked w' = invoked w @ [(tid this, templaterKey templater c, cid c, changeType)] \<and>
            (case f (cstate c) (templaterKey templater c) changeType of
               Inr r \<Rightarrow> res = Inr \<lparr>changed = True, rendered = r\<rparr>
                         \<and> cacheEntry w' (templaterKey templater c) (cid c) (tid this) = Some r
             | Inl e \<Rightarrow> res = Inl e \<and> cacheEntry w' = cacheEntry w))"
proof -
  let ?K = "templaterKey templater c"
  let ?reuse = "cacheEntry w ?K (cid c) (tid this) \<noteq> None \<and> changeOn this AND changeType = 0"
  have K: "(case templater of None \<Rightarrow> cid c | Some t \<Rightarrow> t) = ?K"
    by (simp add: templaterKey_def)
  show ?thesis
  proof (cases ?reuse)
    case True
    then obtain r0 where r0: "cacheEntry w ?K (cid c) (tid this) = Some r0" by auto
    with True assms have "res = Inr \<lparr>changed = False, rendered = r0\<rparr>"
      "w' = setTemplateMap ?K (cid c) (getTemplateMap w ?K (cid c)) w"
      by (auto simp: renderWithTemplater_def K Let_def getTemplateMap_entry mapGet_def)
    with True r0 show ?thesis
      by (simp add: cacheEntry_touch invoked_setTemplateMap)
  next
    case False
    with assms have r: "(case callTemplate this c ?K changeType
          (setTemplateMap ?K (cid c) (getTemplateMap w ?K (cid c)) w) of
              (Inl e, w1) \<Rightarrow> (Inl e, w1)
            | (Inr r, w1) \<Rightarrow>
                (Inr \<lparr>changed = True, rendered = r\<rparr>,
                 setTemplateMap ?K (cid c) ((getTemplateMap w ?K (cid c))(tid this \<mapsto> r)) w1))
          = (res, w')"
      by (auto simp: renderWithTemplater_def K Let_def getTemplateMap_entry)
    have 1: "\<not> (\<exists>r. res = Inr \<lparr>changed = False, rendered = r\<rparr>)"
      using r by (auto split: prod.splits sum.splits)
    have 3: "invoked w' = invoked w @ [(tid this, ?K, cid c, changeType)] \<and>
            (case f (cstate c) ?K changeType of
               Inr r \<Rightarrow> res = Inr \<lparr>changed = True, rendered = r\<rparr>
                         \<and> cacheEntry w' ?K (cid c) (tid this) = Some r
             | Inl e \<Rightarrow> res = Inl e \<and> cacheEntry w' = cacheEntry w)"
      if "template this = Some f" for f
      using r that
      by (auto simp: callTemplate_def invoked_setTemplateMap cacheEntry_setTemplateMap
          cacheEntry_invoked_update cacheEntry_touch split: sum.splits)
    from False 1 3 show ?thesis by auto
  qed
qed


lemma eval_defs:
  "someComponent = \<lparr>cid = 1, cstate = someState\<rparr>"
  "emptyWorld = \<lparr>templaterMap = Map.empty, invoked = []\<rparr>"
  by (simp_all add: someComponent_def emptyWorld_def)

text \<open>
  A template with mask \<open>PROP\<close> whose function throws, rendered for a property change with
  no cached entry: the render call throws and no entry is written.
\<close>

lemma render_throwing_template:
  "changeOn throwingTemplate AND CT_NEVER = 0 \<and>
   cacheEntry emptyWorld 1 1 7 = None \<and>
   fst (renderWithTemplater throwingTemplate CT_PROP someComponent None emptyWorld)
     = Inl (Thrown ''boom'') \<and>
   cacheEntry (snd (renderWithTemplater throwingTemplate CT_PROP someComponent None emptyWorld))
     1 1 7 = None"
  by (simp add: renderWithTemplater_def callTemplate_def throwingTemplate_def eval_defs
      getTemplateMap_def setTemplateMap_def cacheEntry_def CT_simps Let_def)

lemma afterFirst_prop:
  "afterFirst propTemplate CT_PROP =
     \<lparr>templaterMap = [1 \<mapsto> [1 \<mapsto> [8 \<mapsto> RString ''prop'']]], invoked = [(8, 1, 1, CT_PROP)]\<rparr>"
  by (simp add: afterFirst_def renderWithTemplater_def callTemplate_def propTemplate_def
      eval_defs getTemplateMap_def setTemplateMap_def mapGet_def CT_simps Let_def)

theorem render_reuse_iff_witness:
  "changeOn propTemplate AND CT_NEVER = 0 \<and>
   fst (renderWithTemplater propTemplate CT_THEME someComponent None (afterFirst propTemplate CT_PROP))
     = Inr \<lparr>changed = False, rendered = RString ''prop''\<rparr> \<and>
   fst (renderWithTemplater propTemplate CT_PROP someComponent None (afterFirst propTemplate CT_PROP))
     = Inr \<lparr>changed = True, rendered = RString ''prop''\<rparr>"
proof -
  let ?w = "afterFirst propTemplate CT_PROP"
  let ?f = "\<lambda>(_::componentState) (_::ident) ct.
      Inr (RString (if ct = CT_PROP then ''prop'' else ''other'')) :: error + renderResult"
  have m: "changeOn propTemplate AND CT_NEVER = 0"
    by (simp add: propTemplate_def CT_simps)
  have t: "template propTemplate = Some ?f" by (simp add: propTemplate_def)
  have e: "cacheEntry ?w (templaterKey None someComponent) (cid someComponent) (tid propTemplate)
      = Some (RString ''prop'')"
    by (simp only: afterFirst_prop) (simp add: cacheEntry_def templaterKey_def eval_defs propTemplate_def)
  have d: "changeOn propTemplate AND CT_THEME = 0" "changeOn propTemplate AND CT_PROP \<noteq> 0"
    by (simp_all add: propTemplate_def CT_simps)
  let ?r1 = "renderWithTemplater propTemplate CT_THEME someComponent None ?w"
  let ?r2 = "renderWithTemplater propTemplate CT_PROP someComponent None ?w"
  have r1: "?r1 = (fst ?r1, snd ?r1)" and r2: "?r2 = (fst ?r2, snd ?r2)" by simp_all
  from render_reuse_iff [OF m r1] e d(1)
  have 1: "fst ?r1 = Inr \<lparr>changed = False, rendered = RString ''prop''\<rparr>" by blast
  from render_reuse_iff [OF m r2] d(2) t
  have "case ?f (cstate someComponent) (templaterKey None someComponent) CT_PROP of
               Inr r \<Rightarrow> fst ?r2 = Inr \<lparr>changed = True, rendered = r\<rparr>
                         \<and> cacheEntry (snd ?r2) (templaterKey None someComponent)
                              (cid someComponent) (tid propTemplate) = Some r
             | Inl e \<Rightarrow> fst ?r2 = Inl e \<and> cacheEntry (snd ?r2) = cacheEntry ?w"
    by blast
  then have 2: "fst ?r2 = Inr \<lparr>changed = True, rendered = RString ''prop''\<rparr>" by simp
  from m 1 2 show ?thesis by simp
qed

lemma afterFirst_emptyString:
  "afterFirst emptyStringTemplate CT_PROP =
     \<lparr>templaterMap = [1 \<mapsto> [1 \<mapsto> [9 \<mapsto> RString []]]], invoked = [(9, 1, 1, CT_PROP)]\<rparr>"
  by (simp add: afterFirst_def renderWithTemplater_def callTemplate_def emptyStringTemplate_def
      eval_defs getTemplateMap_def setTemplateMap_def mapGet_def CT_simps Let_def)

text \<open>
  C3, at the input where the code departs from it. A \<open>NEVER\<close> template whose function
  returns the empty string is rendered twice for the same pair: the second call finds
  the cached \<open>''\<close>, tests it with \<open>if (cached)\<close>, takes it for missing, calls the function a
  second time and returns \<open>changed = true\<close> again.
\<close>

theorem never_template_falsy_result_recomputes:
  "changeOn emptyStringTemplate AND CT_NEVER \<noteq> 0 \<and>
   fst (renderWithTemplater emptyStringTemplate CT_PROP someComponent None emptyWorld)
     = Inr \<lparr>changed = True, rendered = RString []\<rparr> \<and>
   renderWithTemplater emptyStringTemplate CT_PROP someComponent None
      (afterFirst emptyStringTemplate CT_PROP)
     = (Inr \<lparr>changed = True, rendered = RString []\<rparr>,
        \<lparr>templaterMap = [1 \<mapsto> [1 \<mapsto> [9 \<mapsto> RString []]]],
         invoked = [(9, 1, 1, CT_PROP), (9, 1, 1, CT_PROP)]\<rparr>)"
  by (simp add: afterFirst_emptyString)
     (simp add: renderWithTemplater_def callTemplate_def emptyStringTemplate_def
      eval_defs getTemplateMap_def setTemplateMap_def mapGet_def CT_simps Let_def)

theorem never_template_falsy_result_recomputes_witness:
  "length (invoked (snd (renderWithTemplater emptyStringTemplate CT_PROP someComponent None
      (afterFirst emptyStringTemplate CT_PROP)))) = 2"
  using never_template_falsy_result_recomputes by simp

text \<open>
  What the code does keep of C3: once a truthy result is cached, a \<open>NEVER\<close> template is
  not computed again, whatever the change reason.
\<close>

lemma never_truthy_cached_reused:
  assumes "changeOn this AND CT_NEVER \<noteq> 0"
    and "cacheEntry w (templaterKey templater c) (cid c) (tid this) = Some r"
    and "truthy r"
  shows "\<exists>w'. renderWithTemplater this changeType c templater w
            = (Inr \<lparr>changed = False, rendered = r\<rparr>, w')
          \<and> invoked w' = invoked w \<and> cacheEntry w' = cacheEntry w"
  using assms
  by (simp add: renderWithTemplater_def templaterKey_def Let_def getTemplateMap_entry
      mapGet_def cacheEntry_touch invoked_setTemplateMap)

lemma never_first_render:
  assumes "changeOn this AND CT_NEVER \<noteq> 0"
    and "cacheEntry w (templaterKey templater c) (cid c) (tid this) = None"
    and "template this = Some f"
    and "f (cstate c) (templaterKey templater c) changeType = Inr r"
  shows "\<exists>w'. renderWithTemplater this changeType c templater w
            = (Inr \<lparr>changed = True, rendered = r\<rparr>, w')
          \<and> cacheEntry w' (templaterKey templater c) (cid c) (tid this) = Some r"
  using assms
  by (simp add: renderWithTemplater_def templaterKey_def Let_def getTemplateMap_entry
      mapGet_def callTemplate_def cacheEntry_setTemplateMap)

lemma never_truthy_sequence:
  assumes "changeOn this AND CT_NEVER \<noteq> 0"
    and "cacheEntry w (templaterKey templater c) (cid c) (tid this) = Some r"
    and "truthy r"
  shows "\<exists>w'. renderMany this c templater cts w
            = (replicate (length cts) (Inr \<lparr>changed = False, rendered = r\<rparr>), w')
          \<and> invoked w' = invoked w \<and> cacheEntry w' = cacheEntry w"
  using assms(2)
proof (induction cts arbitrary: w)
  case Nil
  show ?case by simp
next
  case (Cons ct cts)
  from never_truthy_cached_reused [OF assms(1) Cons.prems assms(3), of ct]
  obtain w1 where w1: "renderWithTemplater this ct c templater w
            = (Inr \<lparr>changed = False, rendered = r\<rparr>, w1)"
    "invoked w1 = invoked w" "cacheEntry w1 = cacheEntry w"
    by blast
  from w1(3) Cons.prems
  have "cacheEntry w1 (templaterKey templater c) (cid c) (tid this) = Some r" by simp
  from Cons.IH [OF this] w1 show ?case by auto
qed

section \<open>Server-side rendering (ssr.ts)\<close>

subsection \<open>Objects as dictionaries\<close>

text \<open>
  The own enumerable properties of an object are listed in the order in which
  \<open>for ... in\<close>, \<open>Object.keys\<close> and the spread operator go through them: the keys that
  are array indices first, in ascending numeric order, then the other keys in the order
  of their creation. An array index is the canonical decimal form of an integer below
  \<open>2\<^sup>3\<^sup>2 - 1\<close>.
\<close>

definition isDigit :: "char \<Rightarrow> bool" where
  "isDigit c = (48 \<le> (of_char c :: nat) \<and> (of_char c :: nat) \<le> 57)"

definition digitsValue :: "string \<Rightarrow> nat" where
  "digitsValue s = foldl (\<lambda>n c. 10 * n + ((of_char c :: nat) - 48)) 0 s"

definition isArrayIndex :: "string \<Rightarrow> bool" where
  "isArrayIndex s =
     (s \<noteq> [] \<and> list_all isDigit s \<and> (s = ''0'' \<or> hd s \<noteq> CHR ''0'')
      \<and> length s \<le> 10 \<and> digitsValue s < 4294967295)"

definition hasOwnProperty :: "(string \<times> 'v) list \<Rightarrow> string \<Rightarrow> bool" where
  "hasOwnProperty obj k = (map_of obj k \<noteq> None)"

text \<open>\<open>obj[k]\<close>, read: \<open>undefined\<close> when there is no such property.\<close>

definition getProp :: "jsobject \<Rightarrow> string \<Rightarrow> jsvalue" where
  "getProp obj k = (case map_of obj k of None \<Rightarrow> Undefined | Some v \<Rightarrow> v)"

text \<open>The place of a new key in the enumeration order.\<close>

fun insertKey :: "string \<Rightarrow> 'v \<Rightarrow> (string \<times> 'v) list \<Rightarrow> (string \<times> 'v) list" where
  "insertKey k v [] = [(k, v)]"
| "insertKey k v ((k', v') # rest) =
     (if isArrayIndex k \<and> (\<not> isArrayIndex k' \<or> digitsValue k < digitsValue k')
      then (k, v) # (k', v') # rest
      else (k', v') # insertKey k v rest)"

text \<open>\<open>obj[k] = v\<close>: an existing property keeps its place.\<close>

definition setProp :: "string \<Rightarrow> 'v \<Rightarrow> (string \<times> 'v) list \<Rightarrow> (string \<times> 'v) list" where
  "setProp k v obj =
     (if hasOwnProperty obj k
      then map (\<lambda>(k', v'). if k' = k then (k', v) else (k', v')) obj
      else insertKey k v obj)"

text \<open>The object spread \<open>{...a, ...b}\<close> onto an accumulated object.\<close>

definition spread :: "(string \<times> 'v) list \<Rightarrow> (string \<times> 'v) list \<Rightarrow> (string \<times> 'v) list" where
  "spread acc obj = fold (\<lambda>(k, v) o'. setProp k v o') obj acc"

text \<open>
  An object written as \<open>{}\<close> inherits the members of \<open>Object.prototype\<close>. The test
  \<open>k in obj\<close> and the read \<open>obj[k]\<close> find them where the object has no own property \<open>k\<close>.
  They are functions, and \<open>__proto__\<close> reads as the prototype itself, so every one of them
  is truthy. The names are those ECMAScript gives \<open>Object.prototype\<close>, Annex B included.
\<close>

definition objectPrototypeKeys :: "string list" where
  "objectPrototypeKeys =
     [''constructor'', ''__defineGetter__'', ''__defineSetter__'', ''hasOwnProperty'',
      ''__lookupGetter__'', ''__lookupSetter__'', ''isPrototypeOf'', ''propertyIsEnumerable'',
      ''toString'', ''valueOf'', ''__proto__'', ''toLocaleString'']"

text \<open>\<open>k in obj\<close>, for an object with the own keys \<open>ks\<close>.\<close>

definition inObject :: "string \<Rightarrow> string list \<Rightarrow> bool" where
  "inObject k ks = (k \<in> set ks \<or> k \<in> set objectPrototypeKeys)"

text \<open>
  The assignment \<open>obj[k] = v\<close>. It makes or changes an own property, except for
  \<open>__proto__\<close> on an object that has no own property of that name: that assignment goes to
  the setter of \<open>Object.prototype\<close>, which makes no own property.
\<close>

definition assignProp :: "string \<Rightarrow> 'v \<Rightarrow> (string \<times> 'v) list \<Rightarrow> (string \<times> 'v) list" where
  "assignProp k v obj =
     (if k = ''__proto__'' \<and> \<not> hasOwnProperty obj k then obj else setProp k v obj)"

text \<open>
  What a read finds in a dictionary the code fills with values of one kind: a value the
  code stored, or the member of \<open>Object.prototype\<close> of that name.
\<close>

datatype 'v dictValue = Stored 'v | Inherited string

text \<open>\<open>obj[k]\<close>, read from such a dictionary: \<open>None\<close> is \<open>undefined\<close>.\<close>

definition readProp :: "(string \<times> 'v dictValue) list \<Rightarrow> string \<Rightarrow> 'v dictValue option" where
  "readProp obj k =
     (case map_of obj k of
        Some v \<Rightarrow> Some v
      | None \<Rightarrow> if k \<in> set objectPrototypeKeys then Some (Inherited k) else None)"

subsection \<open>\<open>_Properties.splitAttributes\<close>\<close>

record splitResult =
  attributes :: jsobject
  privateProps :: jsobject
  publicProps :: jsobject

text \<open>
  \<open>splitAttributes(element, attributes)\<close>. The attributes come back as they are when
  the element has no \<open>props\<close>, no \<open>__config\<close>, or a configuration with neither \<open>reflect\<close>
  nor \<open>priv\<close>. Otherwise every key goes to \<open>publicProps\<close> (\<open>key in reflect\<close>), to
  \<open>privateProps\<close> (\<open>key in priv\<close>) or to the new attributes object, where the source
  assigns \<open>attribs[key] = attribs[key]\<close>: the value read from the object being built. The
  objects \<open>reflect\<close> and \<open>priv\<close> (\<open>{}\<close> when missing) are given by their own keys, and the
  tests \<open>in\<close> follow the prototype chain. A key that reaches the last branch names no
  member of \<open>Object.prototype\<close>, so the read there finds an own property or nothing.
\<close>

definition splitAttributes :: "componentState \<Rightarrow> jsobject \<Rightarrow> splitResult" where
  "splitAttributes element attrs =
     (case config element of
        None \<Rightarrow> \<lparr>attributes = attrs, privateProps = [], publicProps = []\<rparr>
      | Some cfg \<Rightarrow>
          if reflect cfg = None \<and> priv cfg = None
          then \<lparr>attributes = attrs, privateProps = [], publicProps = []\<rparr>
          else
            (let reflect' = (case reflect cfg of None \<Rightarrow> [] | Some ks \<Rightarrow> ks);
                 priv' = (case priv cfg of None \<Rightarrow> [] | Some ks \<Rightarrow> ks)
             in fold (\<lambda>(key, val) r.
                   if inObject key reflect'
                   then r\<lparr>publicProps := assignProp key val (publicProps r)\<rparr>
                   else if inObject key priv'
                   then r\<lparr>privateProps := assignProp key val (privateProps r)\<rparr>
                   else r\<lparr>attributes := assignProp key (getProp (attributes r) key) (attributes r)\<rparr>)
                 attrs \<lparr>attributes = [], privateProps = [], publicProps = []\<rparr>))"

text \<open>The configuration declares \<open>reflect\<close> or \<open>priv\<close>.\<close>

definition declaresSplit :: "componentState \<Rightarrow> bool" where
  "declaresSplit element =
     (case config element of
        None \<Rightarrow> False
      | Some cfg \<Rightarrow> \<not> (reflect cfg = None \<and> priv cfg = None))"

text \<open>The keys named in \<open>reflect\<close> or \<open>priv\<close>: the own keys of the two objects.\<close>

definition splitKeys :: "componentState \<Rightarrow> string set" where
  "splitKeys element =
     (case config element of
        None \<Rightarrow> {}
      | Some cfg \<Rightarrow> set (case reflect cfg of None \<Rightarrow> [] | Some ks \<Rightarrow> ks)
                    \<union> set (case priv cfg of None \<Rightarrow> [] | Some ks \<Rightarrow> ks))"

definition reflectingState :: componentState where
  "reflectingState =
     \<lparr>tagName = ''x-a'', attribs = [], props = [],
      config = Some \<lparr>reflect = Some [''a''], priv = None\<rparr>, getTheme = None\<rparr>"

subsection \<open>Properties of \<open>splitAttributes\<close>\<close>

lemma map_of_insertKey: "map_of obj k = None \<Longrightarrow> map_of (insertKey k v obj) = (map_of obj)(k \<mapsto> v)"
proof (induction obj)
  case Nil
  show ?case by simp
next
  case (Cons a obj)
  obtain k' v' where a: "a = (k', v')" by (cases a)
  from Cons.prems have "k' \<noteq> k" "map_of obj k = None" by (auto simp: a split: if_splits)
  with Cons.IH show ?case by (auto simp: a fun_eq_iff)
qed

lemma map_of_setProp: "map_of (setProp k v obj) = (map_of obj)(k \<mapsto> v)"
proof (cases "map_of obj k")
  case None
  then show ?thesis by (simp add: setProp_def hasOwnProperty_def map_of_insertKey)
next
  case (Some a)
  have "map_of (map (\<lambda>(k', v'). if k' = k then (k', v) else (k', v')) obj) k'
      = (if k' = k then (if map_of obj k = None then None else Some v) else map_of obj k')" for k'
    by (induction obj) auto
  with Some show ?thesis by (auto simp: setProp_def hasOwnProperty_def fun_eq_iff)
qed

lemma proto_objectPrototypeKeys: "''__proto__'' \<in> set objectPrototypeKeys"
  by (simp add: objectPrototypeKeys_def)

lemma assignProp_plain: "k \<notin> set objectPrototypeKeys \<Longrightarrow> assignProp k v obj = setProp k v obj"
  using proto_objectPrototypeKeys by (auto simp: assignProp_def)

lemma map_of_assignProp_other: "k' \<noteq> k \<Longrightarrow> map_of (assignProp k v obj) k' = map_of obj k'"
  by (simp add: assignProp_def map_of_setProp)

lemma splitAttributes_fold_attributes:
  "map_of (attributes (fold (\<lambda>(key, val) r.
                   if inObject key R
                   then r\<lparr>publicProps := assignProp key val (publicProps r)\<rparr>
                   else if inObject key P
                   then r\<lparr>privateProps := assignProp key val (privateProps r)\<rparr>
                   else r\<lparr>attributes := assignProp key (getProp (attributes r) key) (attributes r)\<rparr>)
                 attrs r0)) k
   = (if k \<in> fst ` set attrs \<and> \<not> inObject k R \<and> \<not> inObject k P
      then Some (getProp (attributes r0) k) else map_of (attributes r0) k)"
proof (induction attrs arbitrary: r0)
  case Nil
  show ?case by simp
next
  case (Cons a attrs)
  obtain key val where a: "a = (key, val)" by (cases a)
  show ?case
  proof (cases "inObject key R \<or> inObject key P")
    case True
    then show ?thesis
      unfolding a by (auto simp: Cons.IH)
  next
    case False
    then have "key \<notin> set objectPrototypeKeys" by (simp add: inObject_def)
    then have "assignProp key v obj = setProp key v obj" for v and obj :: jsobject
      by (rule assignProp_plain)
    with False show ?thesis
      unfolding a by (simp add: Cons.IH map_of_setProp getProp_def split: option.splits)
  qed
qed

text \<open>
  For the keys that name no member of \<open>Object.prototype\<close>: when the configuration
  declares \<open>reflect\<close> or \<open>priv\<close>, the returned attributes object holds the passed keys that
  are named in neither, each bound to \<open>undefined\<close>, and no key that names a member of
  \<open>Object.prototype\<close>; when it declares neither (or there is no configuration), the passed
  attributes come back unchanged.
\<close>

lemma splitAttributes_attributes:
  "(declaresSplit element \<longrightarrow>
      (\<forall>k. map_of (attributes (splitAttributes element attrs)) k =
           (if k \<in> fst ` set attrs \<and> k \<notin> splitKeys element \<and> k \<notin> set objectPrototypeKeys
            then Some Undefined else None)))
   \<and> (\<not> declaresSplit element \<longrightarrow> attributes (splitAttributes element attrs) = attrs)"
proof -
  have 1: "map_of (attributes (splitAttributes element attrs)) k =
           (if k \<in> fst ` set attrs \<and> k \<notin> splitKeys element \<and> k \<notin> set objectPrototypeKeys
            then Some Undefined else None)"
    if d: "declaresSplit element" for k
  proof -
    from d obtain cfg where cfg: "config element = Some cfg" "\<not> (reflect cfg = None \<and> priv cfg = None)"
      by (auto simp: declaresSplit_def split: option.splits)
    define R where "R = (case reflect cfg of None \<Rightarrow> [] | Some ks \<Rightarrow> ks)"
    define P where "P = (case priv cfg of None \<Rightarrow> [] | Some ks \<Rightarrow> ks)"
    have k: "splitKeys element = set R \<union> set P"
      by (simp add: splitKeys_def cfg R_def P_def)
    have "splitAttributes element attrs = fold (\<lambda>(key, val) r.
                   if inObject key R
                   then r\<lparr>publicProps := assignProp key val (publicProps r)\<rparr>
                   else if inObject key P
                   then r\<lparr>privateProps := assignProp key val (privateProps r)\<rparr>
                   else r\<lparr>attributes := assignProp key (getProp (attributes r) key) (attributes r)\<rparr>)
                 attrs \<lparr>attributes = [], privateProps = [], publicProps = []\<rparr>"
      by (simp only: splitAttributes_def Let_def R_def P_def cfg option.case if_False)
    then have "map_of (attributes (splitAttributes element attrs)) k =
        (if k \<in> fst ` set attrs \<and> \<not> inObject k R \<and> \<not> inObject k P
         then Some Undefined else None)"
      by (simp add: splitAttributes_fold_attributes getProp_def)
    then show ?thesis
      by (auto simp: k inObject_def)
  qed
  have 2: "attributes (splitAttributes element attrs) = attrs" if "\<not> declaresSplit element"
    using that by (auto simp: declaresSplit_def splitAttributes_def split: option.splits)
  from 1 2 show ?thesis by blast
qed

lemma splitAttributes_plain_keys:
  "declaresSplit reflectingState \<and>
   splitAttributes reflectingState [(''a'', Str ''1''), (''b'', Str ''2'')]
     = \<lparr>attributes = [(''b'', Undefined)], privateProps = [], publicProps = [(''a'', Str ''1'')]\<rparr> \<and>
   \<not> declaresSplit someState \<and>
   attributes (splitAttributes someState [(''a'', Str ''1''), (''b'', Str ''2'')])
     = [(''a'', Str ''1''), (''b'', Str ''2'')]"
  by (simp add: declaresSplit_def splitAttributes_def reflectingState_def someState_def setProp_def
      hasOwnProperty_def getProp_def isArrayIndex_def isDigit_def inObject_def assignProp_def
      objectPrototypeKeys_def)

text \<open>
  C10, at the input where the code departs from it. The configuration declares \<open>reflect\<close>
  with the one key \<open>a\<close>, and the attributes \<open>constructor="1"\<close> and \<open>b="2"\<close> are passed.
  Neither key is named in \<open>reflect\<close> or \<open>priv\<close>. The key \<open>b\<close> comes back in the attributes
  bound to \<open>undefined\<close>. For \<open>constructor\<close> the test \<open>key in reflect\<close> finds the member of
  \<open>Object.prototype\<close>: the key is missing from the attributes and stands in \<open>publicProps\<close>
  with the value that was passed.
\<close>

theorem splitAttributes_constructor_key:
  "declaresSplit reflectingState \<and> ''constructor'' \<notin> splitKeys reflectingState \<and>
   splitAttributes reflectingState [(''constructor'', Str ''1''), (''b'', Str ''2'')]
     = \<lparr>attributes = [(''b'', Undefined)], privateProps = [],
        publicProps = [(''constructor'', Str ''1'')]\<rparr>"
  by (simp add: declaresSplit_def splitKeys_def splitAttributes_def reflectingState_def setProp_def
      hasOwnProperty_def getProp_def isArrayIndex_def isDigit_def inObject_def assignProp_def
      objectPrototypeKeys_def)

theorem splitAttributes_constructor_key_witness:
  "map_of (attributes (splitAttributes reflectingState
             [(''constructor'', Str ''1''), (''b'', Str ''2'')])) ''constructor'' = None \<and>
   map_of (publicProps (splitAttributes reflectingState
             [(''constructor'', Str ''1''), (''b'', Str ''2'')])) ''constructor'' = Some (Str ''1'')"
  using splitAttributes_constructor_key by simp

subsection \<open>Render tree (\<open>_TextToTags\<close>)\<close>

text \<open>
  \<open>Tag\<close> (tag name, attributes, self-closing flag, children), \<open>TextTag\<close> (content) and
  their subclasses \<open>CSSTag\<close> and \<open>CSSText\<close>, which add \<open>_changeOn\<close> (unset until
  \<open>setChangeOn\<close>). A \<open>CSSTag\<close> keeps the list it was built with in a second field; the two
  lists differ only after \<open>setChildren\<close> on a \<open>CSSTag\<close>, and the model keeps one list. The
  stylesheet a \<open>CSSText\<close> caches is rebuilt from its content where it is used.
\<close>

datatype parsedTag =
    Tag string jsobject bool "parsedTag list"
  | TextTag string
  | CSSTag string jsobject bool "parsedTag list" "nat option"
  | CSSText string "nat option"

text \<open>\<open>instanceof TextTag\<close> and \<open>instanceof Tag\<close>.\<close>

fun isTextTag :: "parsedTag \<Rightarrow> bool" where
  "isTextTag (TextTag _) = True"
| "isTextTag (CSSText _ _) = True"
| "isTextTag _ = False"

fun isTag :: "parsedTag \<Rightarrow> bool" where
  "isTag (Tag _ _ _ _) = True"
| "isTag (CSSTag _ _ _ _ _) = True"
| "isTag _ = False"

fun tagNameOf :: "parsedTag \<Rightarrow> string" where
  "tagNameOf (Tag n _ _ _) = n"
| "tagNameOf (CSSTag n _ _ _ _) = n"
| "tagNameOf _ = []"

fun attributesOf :: "parsedTag \<Rightarrow> jsobject" where
  "attributesOf (Tag _ a _ _) = a"
| "attributesOf (CSSTag _ a _ _ _) = a"
| "attributesOf _ = []"

fun childrenOf :: "parsedTag \<Rightarrow> parsedTag list" where
  "childrenOf (Tag _ _ _ cs) = cs"
| "childrenOf (CSSTag _ _ _ cs _) = cs"
| "childrenOf _ = []"

text \<open>\<open>copy()\<close> is not overridden by \<open>CSSTag\<close>: the copy is a plain \<open>Tag\<close>.\<close>

fun copy :: "parsedTag \<Rightarrow> parsedTag" where
  "copy (Tag n a sc cs) = Tag n a sc cs"
| "copy (CSSTag n a sc cs _) = Tag n a sc cs"
| "copy t = t"

fun setChildren :: "parsedTag list \<Rightarrow> parsedTag \<Rightarrow> parsedTag" where
  "setChildren cs (Tag n a sc _) = Tag n a sc cs"
| "setChildren cs (CSSTag n a sc _ co) = CSSTag n a sc cs co"
| "setChildren cs t = t"

fun setAttributes :: "jsobject \<Rightarrow> parsedTag \<Rightarrow> parsedTag" where
  "setAttributes a (Tag n _ sc cs) = Tag n a sc cs"
| "setAttributes a (CSSTag n _ sc cs co) = CSSTag n a sc cs co"
| "setAttributes a t = t"

subsection \<open>Calls that may throw or run out of stack\<close>

text \<open>
  The recursion of \<open>walk\<close> follows the tree a handler returns, and \<open>elementToTag\<close> calls
  itself for nested custom elements, so neither is bounded by its input. Both take the
  call depth they may use as a first argument; \<open>OutOfFuel\<close> is a call that needed more.
\<close>

datatype 'a outcome = Returns 'a | Throws error | OutOfFuel

definition bindO :: "'a outcome \<Rightarrow> ('a \<Rightarrow> 'b outcome) \<Rightarrow> 'b outcome" where
  "bindO m f = (case m of Returns x \<Rightarrow> f x | Throws e \<Rightarrow> Throws e | OutOfFuel \<Rightarrow> OutOfFuel)"

subsection \<open>\<open>Tag.walk\<close>\<close>

text \<open>
  A reference to a \<open>Tag\<close> object inside a forest is the list of child indices that lead
  to it. A handler is called with the tag and, in the model, with this reference, which
  stands for the identity of the object it is handed. A handler returns nothing
  (\<open>None\<close>) or \<open>{newTag, stop}\<close>, and may change a state of its own.
\<close>

type_synonym tagRef = "nat list"

type_synonym 's handler =
  "tagRef \<Rightarrow> parsedTag \<Rightarrow> 's \<Rightarrow> ((parsedTag \<times> bool) option \<times> 's) outcome"

text \<open>\<open>children.map((c) => c.walk(handler))\<close>, left to right, with the child's index.\<close>

primrec mapWalk ::
  "(nat \<Rightarrow> parsedTag \<Rightarrow> 's \<Rightarrow> (parsedTag \<times> 's) outcome) \<Rightarrow> nat \<Rightarrow> parsedTag list \<Rightarrow> 's
     \<Rightarrow> (parsedTag list \<times> 's) outcome" where
  "mapWalk f i [] s = Returns ([], s)"
| "mapWalk f i (t # ts) s =
     bindO (f i t s) (\<lambda>(t', s1).
       bindO (mapWalk f (Suc i) ts s1) (\<lambda>(ts', s2). Returns (t' # ts', s2)))"

text \<open>
  \<open>walk(handler)\<close>. A \<open>TextTag\<close> returns itself. A \<open>Tag\<close> calls the handler; when the
  handler returns nothing the default \<open>{stop: true, newTag: this}\<close> applies, so the walk
  stops there; it also stops when the handler says so or returns a \<open>TextTag\<close>. Otherwise
  the result is a copy of \<open>newTag\<close> whose children are the walked children of \<open>newTag\<close>.
\<close>

primrec walk :: "nat \<Rightarrow> 's handler \<Rightarrow> tagRef \<Rightarrow> parsedTag \<Rightarrow> 's \<Rightarrow> (parsedTag \<times> 's) outcome" where
  "walk 0 handler p this s = OutOfFuel"
| "walk (Suc n) handler p this s =
     (if isTextTag this then Returns (this, s)
      else bindO (handler p this s) (\<lambda>(result, s1).
        (case (case result of None \<Rightarrow> (this, True) | Some r \<Rightarrow> r) of
           (newTag, stop) \<Rightarrow>
             if isTextTag newTag \<or> stop then Returns (newTag, s1)
             else bindO (mapWalk (\<lambda>i c. walk n handler (p @ [i]) c) 0 (childrenOf newTag) s1)
                    (\<lambda>(cs, s2). Returns (setChildren cs (copy newTag), s2)))))"

text \<open>\<open>root.forEach((t) => t.walk(handler))\<close>: the walked tags are dropped.\<close>

definition forEachWalk :: "nat \<Rightarrow> 's handler \<Rightarrow> parsedTag list \<Rightarrow> 's \<Rightarrow> 's outcome" where
  "forEachWalk n handler root s =
     bindO (mapWalk (\<lambda>i t. walk n handler [i] t) 0 root s) (\<lambda>(ts, s'). Returns s')"

subsection \<open>Slots (\<open>_Replacement._Slots\<close>)\<close>

text \<open>A property key made from a value: \<open>String(value)\<close>.\<close>

fun keyOf :: "jsvalue \<Rightarrow> string" where
  "keyOf Undefined = ''undefined''"
| "keyOf (Str s) = s"
| "keyOf (Other s) = s"
| "keyOf (Iterable s ts) = s"

text \<open>
  \<open>SlotReceivers\<close> and \<open>Slottables\<close>. Both objects \<open>named\<close> start as \<open>{}\<close>. What stands
  under a name is a receiver (the reference to it) or a slottable, or a member of
  \<open>Object.prototype\<close> that \<open>named[name] = named[name] || tag\<close> has read and written back.
\<close>

record slotReceivers =
  receiversNamed :: "(string \<times> tagRef dictValue) list"
  receiversUnnamed :: "tagRef option"

record slottables =
  slottablesNamed :: "(string \<times> parsedTag dictValue) list"
  slottablesUnnamed :: "parsedTag list"

text \<open>
  \<open>obj[k] = obj[k] || v\<close>. Whatever the read finds is truthy (a tag, or a member of
  \<open>Object.prototype\<close>) and is assigned back; \<open>v\<close> is assigned when the read finds nothing.
\<close>

definition setIfMissing ::
  "string \<Rightarrow> 'v \<Rightarrow> (string \<times> 'v dictValue) list \<Rightarrow> (string \<times> 'v dictValue) list" where
  "setIfMissing k v obj =
     assignProp k (case readProp obj k of None \<Rightarrow> Stored v | Some old \<Rightarrow> old) obj"

definition slotReceiverHandler :: "slotReceivers handler" where
  "slotReceiverHandler p tag slots =
     (if isTag tag \<and> tagNameOf tag = ''slot'' then
        Returns (Some (tag, True),
          if hasOwnProperty (attributesOf tag) ''name''
          then slots\<lparr>receiversNamed :=
                 setIfMissing (keyOf (getProp (attributesOf tag) ''name'')) p (receiversNamed slots)\<rparr>
          else slots\<lparr>receiversUnnamed :=
                 (case receiversUnnamed slots of None \<Rightarrow> Some p | Some q \<Rightarrow> Some q)\<rparr>)
      else Returns (None, slots))"

definition findSlotReceivers :: "nat \<Rightarrow> parsedTag list \<Rightarrow> slotReceivers outcome" where
  "findSlotReceivers n root =
     forEachWalk n slotReceiverHandler root \<lparr>receiversNamed = [], receiversUnnamed = None\<rparr>"

definition slottableHandler :: "slottables handler" where
  "slottableHandler p tag sl =
     (if isTag tag then
        Returns (Some (tag, True),
          if hasOwnProperty (attributesOf tag) ''slot''
          then sl\<lparr>slottablesNamed :=
                 setIfMissing (keyOf (getProp (attributesOf tag) ''slot'')) tag (slottablesNamed sl)\<rparr>
          else sl\<lparr>slottablesUnnamed := slottablesUnnamed sl @ [tag]\<rparr>)
      else Returns (None, sl))"

definition findSlottables :: "nat \<Rightarrow> parsedTag list \<Rightarrow> slottables outcome" where
  "findSlottables n root =
     forEachWalk n slottableHandler root \<lparr>slottablesNamed = [], slottablesUnnamed = []\<rparr>"

text \<open>
  \<open>receiver.setChildren(children)\<close> for the receiver a reference points to: the tag at
  that place of the forest gets the new children. A reference that leads nowhere
  changes nothing.
\<close>

fun setChildrenAt :: "tagRef \<Rightarrow> parsedTag list \<Rightarrow> parsedTag list \<Rightarrow> parsedTag list" where
  "setChildrenAt [] cs forest = forest"
| "setChildrenAt [i] cs forest =
     (if i < length forest then forest[i := setChildren cs (forest ! i)] else forest)"
| "setChildrenAt (i # j # p) cs forest =
     (if i < length forest
      then forest[i := setChildren (setChildrenAt (j # p) cs (childrenOf (forest ! i))) (forest ! i)]
      else forest)"

text \<open>
  The loop of \<open>_replaceSlots\<close> over the own properties of \<open>slottables.named\<close>, in
  enumeration order, on the forest the receivers live in and the list \<open>unslotted\<close>. The
  test \<open>if (receivers.named[slotName])\<close> is a read that follows the prototype chain. When
  it finds a member of \<open>Object.prototype\<close>, that member has no \<open>setChildren\<close> and the call
  is a \<open>TypeError\<close>. A slottable that is not a tag stands only under the name of a member
  of \<open>Object.prototype\<close>, where the test finds that member at the latest; the two places
  where it would become a child of a receiver are therefore not reached from
  \<open>applySlots\<close>, and the model, whose trees hold tags only, stops there.
\<close>

fun replaceNamed ::
  "(string \<times> tagRef dictValue) list \<Rightarrow> (string \<times> parsedTag dictValue) list
     \<Rightarrow> parsedTag list \<Rightarrow> parsedTag list \<Rightarrow> (parsedTag list \<times> parsedTag list) outcome" where
  "replaceNamed named [] forest unslotted = Returns (forest, unslotted)"
| "replaceNamed named ((slotName, slottable) # rest) forest unslotted =
     (case readProp named slotName of
        Some (Stored receiver) \<Rightarrow>
          (case slottable of
             Stored t \<Rightarrow> replaceNamed named rest (setChildrenAt receiver [t] forest) unslotted
           | Inherited m \<Rightarrow> Throws TypeError)
      | Some (Inherited m) \<Rightarrow> Throws TypeError
      | None \<Rightarrow>
          (case slottable of
             Stored t \<Rightarrow> replaceNamed named rest forest (unslotted @ [t])
           | Inherited m \<Rightarrow> Throws TypeError))"

text \<open>\<open>_replaceSlots(receivers, slottables)\<close>.\<close>

definition replaceSlots ::
  "slotReceivers \<Rightarrow> slottables \<Rightarrow> parsedTag list \<Rightarrow> parsedTag list outcome" where
  "replaceSlots receivers sl forest =
     bindO (replaceNamed (receiversNamed receivers) (slottablesNamed sl) forest
              (slottablesUnnamed sl))
       (\<lambda>(f, unslotted).
          Returns (case receiversUnnamed receivers of
                     Some receiver \<Rightarrow> setChildrenAt receiver unslotted f
                   | None \<Rightarrow> f))"

text \<open>\<open>applySlots(element, lightDOM)\<close>: the element with its slots filled.\<close>

definition applySlots :: "nat \<Rightarrow> parsedTag \<Rightarrow> parsedTag \<Rightarrow> parsedTag outcome" where
  "applySlots n element lightDOM =
     bindO (findSlotReceivers n (childrenOf element)) (\<lambda>receivers.
       bindO (findSlottables n (childrenOf lightDOM)) (\<lambda>sl.
         bindO (replaceSlots receivers sl (childrenOf element)) (\<lambda>filled.
           Returns (setChildren filled element))))"

subsection \<open>Vocabulary for the statements about slots\<close>

text \<open>An element of the supplied content that carries the \<open>slot\<close> value \<open>s\<close>.\<close>

definition carriesSlot :: "string \<Rightarrow> parsedTag \<Rightarrow> bool" where
  "carriesSlot s t =
     (isTag t \<and> hasOwnProperty (attributesOf t) ''slot''
      \<and> keyOf (getProp (attributesOf t) ''slot'') = s)"

text \<open>A \<open>slot\<close> element with the \<open>name\<close> value \<open>s\<close>, and one without a \<open>name\<close>.\<close>

definition receiverFor :: "string \<Rightarrow> parsedTag \<Rightarrow> bool" where
  "receiverFor s t =
     (isTag t \<and> tagNameOf t = ''slot'' \<and> hasOwnProperty (attributesOf t) ''name''
      \<and> keyOf (getProp (attributesOf t) ''name'') = s)"

definition unnamedReceiver :: "parsedTag \<Rightarrow> bool" where
  "unnamedReceiver t =
     (isTag t \<and> tagNameOf t = ''slot'' \<and> \<not> hasOwnProperty (attributesOf t) ''name'')"

text \<open>What \<open>_findSlottables\<close> does with one top-level node.\<close>

definition slottableStep :: "parsedTag \<Rightarrow> slottables \<Rightarrow> slottables" where
  "slottableStep tag sl =
     (if isTag tag then
        (if hasOwnProperty (attributesOf tag) ''slot''
          then sl\<lparr>slottablesNamed :=
                 setIfMissing (keyOf (getProp (attributesOf tag) ''slot'')) tag (slottablesNamed sl)\<rparr>
          else sl\<lparr>slottablesUnnamed := slottablesUnnamed sl @ [tag]\<rparr>)
      else sl)"

text \<open>The trees of the slot round trip.\<close>

definition namedSlot :: parsedTag where
  "namedSlot = Tag ''slot'' [(''name'', Str ''a'')] False []"

definition unnamedSlot :: parsedTag where
  "unnamedSlot = Tag ''slot'' [] False []"

definition spanX :: parsedTag where
  "spanX = Tag ''span'' [(''slot'', Str ''a'')] False [TextTag ''X'']"

definition boldY :: parsedTag where
  "boldY = Tag ''b'' [] False [TextTag ''Y'']"

definition nestedReceivers :: parsedTag where
  "nestedReceivers = Tag ''x-host'' [] False [Tag ''div'' [] False [namedSlot, unnamedSlot]]"

definition flatReceivers :: parsedTag where
  "flatReceivers = Tag ''x-host'' [] False [namedSlot, unnamedSlot]"

definition lightDOM :: parsedTag where
  "lightDOM = Tag ''x-host'' [] False [spanX, boldY]"

text \<open>Content with two elements for the slot \<open>a\<close>.\<close>

definition spanZ :: parsedTag where
  "spanZ = Tag ''span'' [(''slot'', Str ''a'')] False [TextTag ''Z'']"

definition duplicateContent :: "parsedTag list" where
  "duplicateContent = [spanX, spanZ, boldY]"

text \<open>
  The same with the slot called \<open>constructor\<close>: the receivers
  \<open><slot name="constructor"></slot><slot></slot>\<close> and the content
  \<open><span slot="constructor">X</span><span slot="constructor">Z</span><b>Y</b>\<close>.
\<close>

definition constructorSlot :: parsedTag where
  "constructorSlot = Tag ''slot'' [(''name'', Str ''constructor'')] False []"

definition constructorX :: parsedTag where
  "constructorX = Tag ''span'' [(''slot'', Str ''constructor'')] False [TextTag ''X'']"

definition constructorZ :: parsedTag where
  "constructorZ = Tag ''span'' [(''slot'', Str ''constructor'')] False [TextTag ''Z'']"

definition constructorReceivers :: parsedTag where
  "constructorReceivers = Tag ''x-host'' [] False [constructorSlot, unnamedSlot]"

definition constructorContent :: parsedTag where
  "constructorContent = Tag ''x-host'' [] False [constructorX, constructorZ, boldY]"

subsection \<open>Properties of the slot resolver\<close>

lemma bindO_simps [simp]:
  "bindO (Returns x) f = f x" "bindO (Throws e) f = Throws e" "bindO OutOfFuel f = OutOfFuel"
  by (simp_all add: bindO_def)

lemma isTag_iff: "isTag t \<longleftrightarrow> \<not> isTextTag t"
  by (cases t) simp_all

lemmas slot_eval = findSlotReceivers_def findSlottables_def forEachWalk_def slotReceiverHandler_def
  slottableHandler_def replaceSlots_def setIfMissing_def setProp_def hasOwnProperty_def
  getProp_def isArrayIndex_def isDigit_def readProp_def assignProp_def objectPrototypeKeys_def

text \<open>
  C4, at the input where the code departs from it. The receiver tree
  \<open><div><slot name="a"></slot><slot></slot></div>\<close> with the content
  \<open><span slot="a">X</span><b>Y</b>\<close>: the handler of \<open>_findSlotReceivers\<close> returns nothing
  for the \<open>div\<close>, \<open>walk\<close> takes that for \<open>stop: true\<close> and never reaches the two slots
  below it, no receiver is found, and the tree stays as it was.
\<close>

theorem applySlots_nested_unchanged:
  "applySlots (Suc n) nestedReceivers lightDOM = Returns nestedReceivers \<and>
   childrenOf nestedReceivers \<noteq>
     [Tag ''div'' [] False [setChildren [spanX] namedSlot, setChildren [boldY] unnamedSlot]]"
  by (simp add: applySlots_def nestedReceivers_def lightDOM_def namedSlot_def unnamedSlot_def
      spanX_def boldY_def slot_eval)

theorem applySlots_nested_unchanged_witness:
  "applySlots 1 nestedReceivers lightDOM = Returns nestedReceivers"
  using applySlots_nested_unchanged [of 0] by simp

text \<open>Slots at the top level of the receivers are found and filled.\<close>

lemma applySlots_flat_filled:
  "applySlots (Suc n) flatReceivers lightDOM =
     Returns (Tag ''x-host'' [] False [setChildren [spanX] namedSlot, setChildren [boldY] unnamedSlot])"
  by (simp add: applySlots_def flatReceivers_def lightDOM_def namedSlot_def unnamedSlot_def
      spanX_def boldY_def slot_eval)

text \<open>
  Content with two elements for the slot \<open>a\<close>: the first becomes the only child of the
  receiver \<open>a\<close>, and the second is in no receiver.
\<close>

lemma applySlots_duplicate_dropped:
  "applySlots (Suc n) flatReceivers (Tag ''x-host'' [] False duplicateContent) =
     Returns (Tag ''x-host'' [] False [setChildren [spanX] namedSlot, setChildren [boldY] unnamedSlot])"
  by (simp add: applySlots_def flatReceivers_def duplicateContent_def namedSlot_def unnamedSlot_def
      spanX_def spanZ_def boldY_def slot_eval)

text \<open>
  \<open>_findSlottables\<close> on any content, for the slot values that name no member of
  \<open>Object.prototype\<close>: the first top-level element that carries the value stands under
  it, and the unnamed list holds the elements without a \<open>slot\<close> attribute, so a later
  element with the same value is in neither.
\<close>

lemma walk_slottableHandler:
  "walk (Suc n) slottableHandler p t sl = Returns (t, slottableStep t sl)"
  by (simp add: slottableHandler_def slottableStep_def isTag_iff)

lemma mapWalk_stopping:
  assumes "\<And>i t s. f i t s = Returns (t, step t s)"
  shows "mapWalk f i root s = Returns (root, fold step root s)"
  using assms by (induction root arbitrary: i s) simp_all

lemma findSlottables_fold:
  "findSlottables (Suc n) content =
     Returns (fold slottableStep content \<lparr>slottablesNamed = [], slottablesUnnamed = []\<rparr>)"
  unfolding findSlottables_def forEachWalk_def
  by (subst mapWalk_stopping [where step = slottableStep])
     (simp_all add: walk_slottableHandler del: walk.simps)

lemma map_of_setIfMissing:
  assumes "s \<notin> set objectPrototypeKeys"
  shows "map_of (setIfMissing k v obj) s =
     (if s = k then Some (case map_of obj k of None \<Rightarrow> Stored v | Some old \<Rightarrow> old)
      else map_of obj s)"
proof (cases "s = k")
  case True
  with assms have "readProp obj k = map_of obj k"
    by (simp add: readProp_def split: option.splits)
  with True assms show ?thesis
    by (simp add: setIfMissing_def assignProp_plain map_of_setProp)
next
  case False
  then show ?thesis by (simp add: setIfMissing_def map_of_assignProp_other)
qed

lemma unnamed_slottableStep:
  "slottablesUnnamed (slottableStep t sl) = slottablesUnnamed sl @
     (if isTag t \<and> \<not> hasOwnProperty (attributesOf t) ''slot'' then [t] else [])"
  by (simp add: slottableStep_def)

lemma named_slottableStep:
  assumes "s \<notin> set objectPrototypeKeys"
  shows "map_of (slottablesNamed (slottableStep t sl)) s =
     (case map_of (slottablesNamed sl) s of
        Some x \<Rightarrow> Some x
      | None \<Rightarrow> if carriesSlot s t then Some (Stored t) else None)"
  using assms
  by (auto simp: slottableStep_def carriesSlot_def map_of_setIfMissing split: option.splits)

lemma unnamed_fold_slottableStep:
  "slottablesUnnamed (fold slottableStep content sl)
     = slottablesUnnamed sl @ filter (\<lambda>t. isTag t \<and> \<not> hasOwnProperty (attributesOf t) ''slot'') content"
  by (induction content arbitrary: sl) (simp_all add: unnamed_slottableStep)

lemma named_fold_slottableStep:
  assumes "s \<notin> set objectPrototypeKeys"
  shows "map_of (slottablesNamed (fold slottableStep content sl)) s
        = (case map_of (slottablesNamed sl) s of Some t \<Rightarrow> Some t
           | None \<Rightarrow> map_option Stored (List.find (carriesSlot s) content))"
  by (induction content arbitrary: sl)
     (simp_all add: named_slottableStep [OF assms] split: option.splits)

lemma findSlottables_first_wins:
  assumes "s \<notin> set objectPrototypeKeys"
  shows "\<exists>sl. findSlottables (Suc n) content = Returns sl
     \<and> map_of (slottablesNamed sl) s = map_option Stored (List.find (carriesSlot s) content)
     \<and> slottablesUnnamed sl
         = filter (\<lambda>t. isTag t \<and> \<not> hasOwnProperty (attributesOf t) ''slot'') content"
  by (simp add: findSlottables_fold unnamed_fold_slottableStep named_fold_slottableStep [OF assms])

text \<open>
  C9, at the input where the code departs from it. The content holds two elements with
  \<open>slot="constructor"\<close>, and there is a receiver of that name. \<open>_findSlotReceivers\<close> and
  \<open>_findSlottables\<close> read \<open>named["constructor"]\<close> from an empty object, find the member
  \<open>constructor\<close> of \<open>Object.prototype\<close> and store it in place of the receiver and of the
  first element. \<open>_replaceSlots\<close> then calls \<open>setChildren\<close> on it, which is a \<open>TypeError\<close>:
  no tree comes back, where the first element should have become the only child of the
  receiver and the second should have been dropped.
\<close>

theorem applySlots_constructor_slot_throws:
  "findSlottables (Suc n) (childrenOf constructorContent) =
     Returns \<lparr>slottablesNamed = [(''constructor'', Inherited ''constructor'')],
              slottablesUnnamed = [boldY]\<rparr> \<and>
   applySlots (Suc n) constructorReceivers constructorContent = Throws TypeError \<and>
   applySlots (Suc n) constructorReceivers constructorContent \<noteq>
     Returns (Tag ''x-host'' [] False
        [setChildren [constructorX] constructorSlot, setChildren [boldY] unnamedSlot])"
  by (simp add: applySlots_def constructorReceivers_def constructorContent_def
      constructorSlot_def constructorX_def constructorZ_def unnamedSlot_def boldY_def slot_eval)

theorem applySlots_constructor_slot_throws_witness:
  "applySlots 1 constructorReceivers constructorContent = Throws TypeError"
  using applySlots_constructor_slot_throws [of 0] by simp

subsection \<open>Templates as text (\<open>renderAsText\<close>, template-fn.ts)\<close>

text \<open>The static function \<open>TemplateFn._textRenderer\<close>, as the object it is.\<close>

definition textRendererId :: ident where
  "textRendererId = 0"

text \<open>An element of an array read past its end is \<open>undefined\<close>, which \<open>join\<close> writes as nothing.\<close>

definition nthOrEmpty :: "string list \<Rightarrow> nat \<Rightarrow> string" where
  "nthOrEmpty xs i = (if i < length xs then xs ! i else [])"

definition textRenderer :: "string list \<Rightarrow> string list \<Rightarrow> string" where
  "textRenderer strings vals =
     nthOrEmpty strings 0 @
     concat (map (\<lambda>i. nthOrEmpty vals i @ nthOrEmpty strings (Suc i)) [0..<length vals])"

text \<open>
  \<open>_templateResultToText\<close>. It is called for results that are not strings; applied to a
  string, the test \<open>'toText' in result\<close> is a \<open>TypeError\<close>.
\<close>

fun templateResultToText :: "renderResult \<Rightarrow> error + string" where
  "templateResultToText RNull = Inr []"
| "templateResultToText RUndefined = Inr []"
| "templateResultToText (RElement innerHTML) = Inr innerHTML"
| "templateResultToText (RToText t) = Inr t"
| "templateResultToText (RStringsValues strings vals) = Inr (textRenderer strings vals)"
| "templateResultToText ROther = Inl NoTextForm"
| "templateResultToText (RString s) = Inl TypeError"

text \<open>
  \<open>renderAsText(changeType, component)\<close>. The flag \<open>_lastRenderChanged\<close> it sets is read
  only by \<open>renderIfNew\<close> and is left out.
\<close>

definition renderAsText ::
  "templateFn \<Rightarrow> nat \<Rightarrow> component \<Rightarrow> world \<Rightarrow> (error + string) \<times> world" where
  "renderAsText this changeType c w =
     (case renderWithTemplater this changeType c (Some textRendererId) w of
        (Inl e, w') \<Rightarrow> (Inl e, w')
      | (Inr out, w') \<Rightarrow>
          (case rendered out of
             RString s \<Rightarrow> (Inr s, w')
           | r \<Rightarrow> (templateResultToText r, w')))"

subsection \<open>Attributes and tags as text\<close>

text \<open>\<open>_Attributes._toString\<close>.\<close>

fun toStringJS :: "jsvalue \<Rightarrow> string" where
  "toStringJS Undefined = ''undefined''"
| "toStringJS (Str s) = s"
| "toStringJS (Other s) = s"
| "toStringJS (Iterable s ts) = concat ts"

definition dquote :: char where
  "dquote = CHR 0x22"

text \<open>\<open>.replace(/"/g, '&quot;')\<close>.\<close>

definition escapeQuotes :: "string \<Rightarrow> string" where
  "escapeQuotes s = concat (map (\<lambda>c. if c = dquote then ''&quot;'' else [c]) s)"

text \<open>\<open>Array.prototype.join\<close> and \<open>String.prototype.split\<close> with a one-character separator.\<close>

fun joinWith :: "string \<Rightarrow> string list \<Rightarrow> string" where
  "joinWith sep [] = []"
| "joinWith sep [x] = x"
| "joinWith sep (x # y # ys) = x @ sep @ joinWith sep (y # ys)"

fun splitOn :: "char \<Rightarrow> string \<Rightarrow> string list" where
  "splitOn c [] = [[]]"
| "splitOn c (x # xs) =
     (if x = c then [] # splitOn c xs
      else (case splitOn c xs of [] \<Rightarrow> [[x]] | w # ws \<Rightarrow> (x # w) # ws))"

text \<open>\<open>_Attributes.stringify\<close>.\<close>

definition stringify :: "jsobject \<Rightarrow> string" where
  "stringify attrs =
     (if attrs = [] then []
      else '' '' @ joinWith '' ''
             (map (\<lambda>(key, v). key @ ''='' @ [dquote] @ escapeQuotes (toStringJS v) @ [dquote])
                attrs))"

text \<open>\<open>toText()\<close>.\<close>

fun toText :: "parsedTag \<Rightarrow> string" where
  "toText (Tag n a sc cs) =
     (if sc \<and> cs = [] then ''<'' @ n @ stringify a @ ''/>''
      else ''<'' @ n @ stringify a @ ''>'' @ concat (map toText cs) @ ''</'' @ n @ ''>'')"
| "toText (CSSTag n a sc cs co) =
     (if sc \<and> cs = [] then ''<'' @ n @ stringify a @ ''/>''
      else ''<'' @ n @ stringify a @ ''>'' @ concat (map toText cs) @ ''</'' @ n @ ''>'')"
| "toText (TextTag content) = content"
| "toText (CSSText content co) = content"

subsection \<open>Parsing (\<open>_Parser\<close>) and the libraries\<close>

text \<open>
  What the HTML parser hands back: text nodes and elements (tag name, attributes in
  enumeration order, children).
\<close>

datatype domNode = DataNode string | Element string "(string \<times> string) list" "domNode list"

text \<open>
  What the CSS parser hands back: the rules of the stylesheet, if the result has a
  stylesheet. A rule has selectors (or none) and a rest the code does not look at; any
  other node (a comment, an at-rule) has no \<open>selectors\<close> property.
\<close>

datatype cssNode = CssRule "string list option" string | CssOther string

text \<open>
  The libraries the code calls: \<open>htmlparser2\<close> with \<open>domhandler\<close>, and \<open>parse\<close> and
  \<open>stringify\<close> of \<open>css\<close>. They are not part of the repository and are parameters here;
  \<open>parseCSS\<close> may throw.
\<close>

record libs =
  parseHTML :: "string \<Rightarrow> domNode list"
  parseCSS :: "string \<Rightarrow> error + cssNode list option"
  stringifyCSS :: "cssNode list option \<Rightarrow> string"

definition toLowerChar :: "char \<Rightarrow> char" where
  "toLowerChar c =
     (if 65 \<le> (of_char c :: nat) \<and> (of_char c :: nat) \<le> 90
      then char_of ((of_char c :: nat) + 32) else c)"

definition VOID_TAGS :: "string list" where
  "VOID_TAGS = [''area'', ''base'', ''br'', ''col'', ''embed'', ''hr'', ''img'', ''input'',
     ''keygen'', ''link'', ''menuitem'', ''meta'', ''param'', ''source'', ''track'', ''wbr'']"

text \<open>
  \<open>_domToTags\<close>, with the classes to build passed as a flag: \<open>Tag\<close> and \<open>TextTag\<close>, or
  \<open>CSSTag\<close> and \<open>CSSText\<close>.
\<close>

fun domToTag :: "bool \<Rightarrow> domNode \<Rightarrow> parsedTag" where
  "domToTag cssClasses (DataNode nodeValue) =
     (if cssClasses then CSSText nodeValue None else TextTag nodeValue)"
| "domToTag cssClasses (Element name attrs kids) =
     (if cssClasses
      then CSSTag name (map (\<lambda>(k, v). (k, Str v)) attrs)
             (map toLowerChar name \<in> set VOID_TAGS) (map (domToTag cssClasses) kids) None
      else Tag name (map (\<lambda>(k, v). (k, Str v)) attrs)
             (map toLowerChar name \<in> set VOID_TAGS) (map (domToTag cssClasses) kids))"

definition parse :: "libs \<Rightarrow> bool \<Rightarrow> string \<Rightarrow> parsedTag list" where
  "parse lib cssClasses text = map (domToTag cssClasses) (parseHTML lib text)"

subsection \<open>Document session and classes\<close>

record documentSession =
  cssIdentifierMap :: "ident \<rightharpoonup> nat"
  sheetSet :: "ident set"
  unnamedElements :: nat
  elementMap :: depdendencyMap

definition newDocumentSession :: documentSession where
  "newDocumentSession =
     \<lparr>cssIdentifierMap = Map.empty, sheetSet = {}, unnamedElements = 1, elementMap = Map.empty\<rparr>"

text \<open>
  What the constructor of a class, wrapped by \<open>_createBase\<close>, leaves in a new instance:
  its \<open>props\<close> with their configuration, and the attributes it set on itself
  (\<open>_attributes\<close>). The constructors are user code and a parameter here.
\<close>

record constructed =
  iProps :: jsobject
  iConfig :: "propsConfig option"
  iAttributes :: jsobject

text \<open>
  \<open>BaseTypes.BaseClass\<close>: the tag name and dependencies, the HTML template, the CSS
  templates (none, one or an array, as a list) and the constructor, which gets the tag
  name, the attributes and the theme.
\<close>

record baseClass = baseClassDeps +
  html :: "templateFn option"
  css :: "templateFn list"
  construct :: "string \<Rightarrow> jsobject \<Rightarrow> jsobject \<Rightarrow> constructed"

text \<open>
  The state a render works on: the document session, the template cache, and the
  identity the next new object gets.
\<close>

record ssrState =
  session :: documentSession
  memo :: world
  nextObject :: ident

text \<open>\<open>_tryRender(instance, template)\<close>: the text, or a \<open>RenderError\<close> around what was thrown.\<close>

definition tryRender ::
  "component \<Rightarrow> templateFn option \<Rightarrow> ssrState \<Rightarrow> (string \<times> ssrState) outcome" where
  "tryRender inst tmpl st =
     (case tmpl of
        None \<Rightarrow> Returns ([], st)
      | Some t \<Rightarrow>
          (case renderAsText t CT_ALWAYS inst (memo st) of
             (Inl e, w) \<Rightarrow> Throws (RenderError e)
           | (Inr text, w) \<Rightarrow> Returns (text, st\<lparr>memo := w\<rparr>)))"

subsection \<open>CSS scoping (\<open>_CSS\<close>)\<close>

text \<open>
  The getter \<open>elementGlobal\<close> of \<open>CSSTag\<close> and \<open>CSSText\<close>:
  \<open>_changeOn === CHANGE_TYPE.THEME || !!(_changeOn & CHANGE_TYPE.NEVER)\<close>. A plain tag has
  no such property, which reads as false.
\<close>

definition globalMask :: "nat option \<Rightarrow> bool" where
  "globalMask co = (case co of None \<Rightarrow> False | Some c \<Rightarrow> c = CT_THEME \<or> c AND CT_NEVER \<noteq> 0)"

fun elementGlobal :: "parsedTag \<Rightarrow> bool" where
  "elementGlobal (CSSTag n a sc cs co) = globalMask co"
| "elementGlobal (CSSText content co) = globalMask co"
| "elementGlobal _ = False"

text \<open>\<open>setChangeOn\<close>, defined by \<open>CSSTag\<close> (for itself and its children) and \<open>CSSText\<close>.\<close>

fun setChangeOn :: "nat \<Rightarrow> parsedTag \<Rightarrow> parsedTag" where
  "setChangeOn c (CSSTag n a sc cs co) = CSSTag n a sc (map (setChangeOn c) cs) (Some c)"
| "setChangeOn c (CSSText content co) = CSSText content (Some c)"
| "setChangeOn c t = t"

text \<open>A loop over a list whose body may throw and changes the state.\<close>

primrec mapO :: "('a \<Rightarrow> 's \<Rightarrow> ('b \<times> 's) outcome) \<Rightarrow> 'a list \<Rightarrow> 's \<Rightarrow> ('b list \<times> 's) outcome" where
  "mapO f [] s = Returns ([], s)"
| "mapO f (x # xs) s =
     bindO (f x s) (\<lambda>(y, s1). bindO (mapO f xs s1) (\<lambda>(ys, s2). Returns (y # ys, s2)))"

text \<open>\<open>_parseElementCSS(element, instance)\<close>: the style tags of each CSS template.\<close>

definition parseElementCSS ::
  "libs \<Rightarrow> templateFn list \<Rightarrow> component \<Rightarrow> ssrState \<Rightarrow> (parsedTag list list \<times> ssrState) outcome" where
  "parseElementCSS lib templates inst st =
     mapO (\<lambda>tmpl s.
        bindO (tryRender inst (Some tmpl) s) (\<lambda>(text, s1).
          Returns (map (setChangeOn (changeOn tmpl)) (filter isTag (parse lib True text)), s1)))
       templates st"

text \<open>Decimal digits of a number, as a template literal writes it.\<close>

fun showNat :: "nat \<Rightarrow> string" where
  "showNat n =
     (if n < 10 then [char_of (48 + n)]
      else showNat (n div 10) @ [char_of (48 + n mod 10)])"

declare showNat.simps [simp del]

text \<open>\<open>_generateUniqueID(element, tagName, session)\<close> and \<open>_generateComponentID(tagName)\<close>.\<close>

definition generateUniqueID :: "ident \<Rightarrow> string \<Rightarrow> documentSession \<Rightarrow> string \<times> documentSession" where
  "generateUniqueID element name s =
     (let num = (case cssIdentifierMap s element of None \<Rightarrow> 0 | Some k \<Rightarrow> k)
      in (''css-'' @ name @ ''-'' @ showNat num,
          s\<lparr>cssIdentifierMap := (cssIdentifierMap s)(element \<mapsto> num + 1)\<rparr>))"

definition generateComponentID :: "string \<Rightarrow> string" where
  "generateComponentID name = ''css-'' @ name"

text \<open>\<open>CSSText.addPrefix(prefix)\<close> on the rules of a stylesheet.\<close>

fun prefixRule :: "string \<Rightarrow> cssNode \<Rightarrow> cssNode" where
  "prefixRule prefix (CssRule (Some selectors) rest) =
     CssRule (Some (map (\<lambda>selector. prefix @ ''-'' @ selector) selectors)) rest"
| "prefixRule prefix line = line"

text \<open>
  What the handler of \<open>_addCSSPrefixes\<close> does to a \<open>CSSText\<close>: \<open>addPrefix\<close> parses the
  content (a failure is a \<open>CSSParseError\<close> with the content) and prefixes the selectors,
  \<open>stringify\<close> writes the stylesheet back into the content. Anything else handed to the
  handler has no \<open>addPrefix\<close>.
\<close>

fun prefixSheetText :: "libs \<Rightarrow> string \<Rightarrow> parsedTag \<Rightarrow> error + parsedTag" where
  "prefixSheetText lib prefix (CSSText content co) =
     (case parseCSS lib content of
        Inl e \<Rightarrow> Inl (CSSParseError e content)
      | Inr None \<Rightarrow> Inr (CSSText (stringifyCSS lib None) co)
      | Inr (Some rules) \<Rightarrow>
          Inr (CSSText (stringifyCSS lib (Some (map (prefixRule prefix) rules))) co))"
| "prefixSheetText lib prefix t = Inl TypeError"

text \<open>A list of calls that may throw, stopping at the first that does.\<close>

primrec sequenceE :: "(error + 'a) list \<Rightarrow> error + 'a list" where
  "sequenceE [] = Inr []"
| "sequenceE (x # xs) =
     (case x of
        Inl e \<Rightarrow> Inl e
      | Inr y \<Rightarrow> (case sequenceE xs of Inl e \<Rightarrow> Inl e | Inr ys \<Rightarrow> Inr (y # ys)))"

text \<open>
  \<open>_walkCSSSheets(tags, handler)\<close> for one tag: into the children of a \<open>CSSTag\<close>, the
  handler on anything else. The handler changes the tag it is given.
\<close>

fun walkCSSSheet :: "(parsedTag \<Rightarrow> error + parsedTag) \<Rightarrow> parsedTag \<Rightarrow> error + parsedTag" where
  "walkCSSSheet handler (CSSTag n a sc cs co) =
     (case sequenceE (map (walkCSSSheet handler) cs) of
        Inl e \<Rightarrow> Inl e
      | Inr cs' \<Rightarrow> Inr (CSSTag n a sc cs' co))"
| "walkCSSSheet handler t = handler t"

definition walkCSSSheets ::
  "(parsedTag \<Rightarrow> error + parsedTag) \<Rightarrow> parsedTag list \<Rightarrow> error + parsedTag list" where
  "walkCSSSheets handler tags = sequenceE (map (walkCSSSheet handler) tags)"

text \<open>\<open>_addCSSPrefixes(templates, uniqueID, componentID)\<close>, for one sheet and for all.\<close>

definition addCSSPrefix :: "libs \<Rightarrow> string \<Rightarrow> string \<Rightarrow> parsedTag \<Rightarrow> error + parsedTag" where
  "addCSSPrefix lib uniqueID componentID sheet =
     (let prefix = (if elementGlobal sheet then componentID else uniqueID)
      in case walkCSSSheets (prefixSheetText lib prefix) (childrenOf sheet) of
           Inl e \<Rightarrow> Inl e
         | Inr cs \<Rightarrow> Inr (setChildren cs sheet))"

definition addCSSPrefixes ::
  "libs \<Rightarrow> parsedTag list list \<Rightarrow> string \<Rightarrow> string \<Rightarrow> error + parsedTag list list" where
  "addCSSPrefixes lib templates uniqueID componentID =
     sequenceE (map (\<lambda>tmpl. sequenceE (map (addCSSPrefix lib uniqueID componentID) tmpl))
       templates)"

text \<open>\<open>tagName.includes('-')\<close>.\<close>

definition includesDash :: "string \<Rightarrow> bool" where
  "includesDash name = (CHR ''-'' \<in> set name)"

text \<open>
  The handler of \<open>_addHTMLPrefixes\<close>: both identifiers are appended to the class list of
  the tag, and the walk stops at a custom element.
\<close>

definition htmlPrefixHandler :: "string \<Rightarrow> string \<Rightarrow> 's handler" where
  "htmlPrefixHandler uniqueID componentID p tag s =
     (if isTextTag tag then Returns (None, s)
      else
        (let classNames =
               (if \<not> hasOwnProperty (attributesOf tag) ''class'' then []
                else (case getProp (attributesOf tag) ''class'' of
                        Str cls \<Rightarrow> splitOn CHR '' '' cls
                      | other \<Rightarrow> []));
             classNames' = classNames @ [uniqueID, componentID]
         in Returns
              (Some (setAttributes
                       (setProp ''class'' (Str (joinWith '' '' classNames')) (attributesOf tag)) tag,
                     includesDash (tagNameOf tag)),
               s)))"

definition addHTMLPrefixes ::
  "nat \<Rightarrow> parsedTag list \<Rightarrow> string \<Rightarrow> string \<Rightarrow> 's \<Rightarrow> (parsedTag list \<times> 's) outcome" where
  "addHTMLPrefixes n tags uniqueID componentID s =
     mapWalk (\<lambda>i t. walk n (htmlPrefixHandler uniqueID componentID) [i] t) 0 tags s"

definition liftE :: "error + 'a \<Rightarrow> 'a outcome" where
  "liftE r = (case r of Inl e \<Rightarrow> Throws e | Inr x \<Rightarrow> Returns x)"

text \<open>
  \<open>getCSSApplied(element, instance, tagName, children, session)\<close>, with the CSS
  templates of the element passed along with its identity.
\<close>

definition getCSSApplied ::
  "nat \<Rightarrow> libs \<Rightarrow> ident \<Rightarrow> templateFn list \<Rightarrow> component \<Rightarrow> string \<Rightarrow> parsedTag list \<Rightarrow> ssrState
     \<Rightarrow> (parsedTag list \<times> ssrState) outcome" where
  "getCSSApplied n lib element templates inst name kids st0 =
     (case generateUniqueID element name (session st0) of
        (uniqueID, session1) \<Rightarrow>
          (let st1 = st0\<lparr>session := session1\<rparr>;
               componentID = generateComponentID name
           in bindO (parseElementCSS lib templates inst st1) (\<lambda>(parsed, st2).
                bindO (liftE (addCSSPrefixes lib parsed uniqueID componentID)) (\<lambda>prefixed.
                  (let prefixedCSS = concat prefixed in
                   bindO (addHTMLPrefixes n kids uniqueID componentID st2) (\<lambda>(htmlPrefixed, st3).
                     (let isFirstElementRender = (element \<notin> sheetSet (session st3));
                          st4 = st3\<lparr>session :=
                                  (session st3)\<lparr>sheetSet := insert element (sheetSet (session st3))\<rparr>\<rparr>
                      in Returns
                           ((if isFirstElementRender then filter elementGlobal prefixedCSS else [])
                              @ filter (\<lambda>s. \<not> elementGlobal s) prefixedCSS
                              @ htmlPrefixed,
                            st4))))))))"

subsection \<open>The SSR driver (\<open>elementToTag\<close>, \<open>render\<close>, \<open>renderElement\<close>)\<close>

text \<open>
  \<open>_mapTag\<close>, \<open>replace\<close> and \<open>elementToTag\<close> call each other. The first two are given the
  function that expands a nested element (\<open>elementToTag\<close> at one call less) as an
  argument; they are otherwise as in the source. A custom element whose tag name is in
  the session's map is replaced by its expansion with the slots applied, and the walk
  stops there.
\<close>

type_synonym expander =
  "ident \<Rightarrow> jsobject \<Rightarrow> jsobject \<Rightarrow> ssrState \<Rightarrow> (parsedTag \<times> ssrState) outcome"

definition mapTag :: "expander \<Rightarrow> nat \<Rightarrow> jsobject \<Rightarrow> ssrState handler" where
  "mapTag expand n theme p tag st =
     (if isTextTag tag then Returns (None, st)
      else if \<not> includesDash (tagNameOf tag)
              \<or> elementMap (session st) (tagNameOf tag) = None
      then Returns (None, st)
      else
        (case elementMap (session st) (tagNameOf tag) of
           None \<Rightarrow> Returns (None, st)
         | Some element \<Rightarrow>
             bindO (expand element (attributesOf tag) theme st) (\<lambda>(newTag, st').
               bindO (applySlots n newTag tag) (\<lambda>newTag'.
                 Returns (Some (newTag', True), st')))))"

definition replaceTags ::
  "expander \<Rightarrow> nat \<Rightarrow> parsedTag list \<Rightarrow> jsobject \<Rightarrow> ssrState \<Rightarrow> (parsedTag list \<times> ssrState) outcome" where
  "replaceTags expand n tags theme st =
     mapWalk (\<lambda>i t. walk n (mapTag expand n theme) [i] t) 0 tags st"

text \<open>
  \<open>new wrappedClass()\<close>: a new object, with the state the constructor leaves and the
  theme \<open>getTheme()\<close> answers with.
\<close>

definition newInstance ::
  "constructed \<Rightarrow> string \<Rightarrow> jsobject \<Rightarrow> jsobject \<Rightarrow> ssrState \<Rightarrow> component \<times> ssrState" where
  "newInstance made name attrs theme st =
     (\<lparr>cid = nextObject st,
       cstate = \<lparr>tagName = name, attribs = attrs, props = iProps made,
                 config = iConfig made, getTheme = Some theme\<rparr>\<rparr>,
      st\<lparr>nextObject := Suc (nextObject st)\<rparr>)"

text \<open>
  The tag name of an expansion: \<open>element.is\<close> when it is truthy, else \<open>wclib-element\<close>
  with the session's counter, which is then increased.
\<close>

definition resolveTagName ::
  "'a baseClassDeps_scheme \<Rightarrow> documentSession \<Rightarrow> string \<times> documentSession" where
  "resolveTagName cls s =
     (let generated = (''wclib-element'' @ showNat (unnamedElements s),
                       s\<lparr>unnamedElements := Suc (unnamedElements s)\<rparr>)
      in case is_tag cls of
           None \<Rightarrow> generated
         | Some t \<Rightarrow> if t \<noteq> [] then (t, s) else generated)"

text \<open>
  The body of \<open>elementToTag(element, attribs, theme, session)\<close>, given the function that
  expands the nested elements: the tag name, the instance, the rendered and parsed HTML,
  the split attributes, the nested elements replaced, the CSS applied, and the new tag
  with the merged attributes.
\<close>

definition expandElement ::
  "expander \<Rightarrow> nat \<Rightarrow> libs \<Rightarrow> baseClass \<Rightarrow> ident \<Rightarrow> jsobject \<Rightarrow> jsobject \<Rightarrow> ssrState
     \<Rightarrow> (parsedTag \<times> ssrState) outcome" where
  "expandElement expand n lib cls element attrs theme st0 =
     (case resolveTagName cls (session st0) of
        (name, session1) \<Rightarrow>
          (let made = construct cls name attrs theme
           in case newInstance made name attrs theme (st0\<lparr>session := session1\<rparr>) of
                (inst, st2) \<Rightarrow>
                  bindO (tryRender inst (html cls) st2) (\<lambda>(text, st3).
                    (let tags = parse lib False text;
                         split = splitAttributes (cstate inst) attrs
                     in bindO (replaceTags expand n tags theme st3) (\<lambda>(kids, st4).
                          bindO (getCSSApplied n lib element (css cls) inst name kids st4)
                            (\<lambda>(cssApplied, st5).
                              Returns
                                (Tag name
                                   (spread (spread (spread [] (attributes split))
                                      (publicProps split)) (iAttributes made))
                                   False cssApplied,
                                 st5)))))))"

text \<open>\<open>elementToTag\<close>: each nested expansion has one call less to spend.\<close>

primrec elementToTag ::
  "nat \<Rightarrow> libs \<Rightarrow> (ident \<Rightarrow> baseClass) \<Rightarrow> ident \<Rightarrow> jsobject \<Rightarrow> jsobject \<Rightarrow> ssrState
     \<Rightarrow> (parsedTag \<times> ssrState) outcome" where
  "elementToTag 0 lib classes element attrs theme st = OutOfFuel"
| "elementToTag (Suc n) lib classes element attrs theme st =
     expandElement (elementToTag n lib classes) n lib (classes element) element attrs theme st"

text \<open>\<open>_Rendering.render(element, attributes, theme, session)\<close>.\<close>

definition render ::
  "nat \<Rightarrow> libs \<Rightarrow> (ident \<Rightarrow> baseClass) \<Rightarrow> ident \<Rightarrow> jsobject \<Rightarrow> jsobject \<Rightarrow> ssrState
     \<Rightarrow> (string \<times> ssrState) outcome" where
  "render n lib classes element attrs theme st =
     bindO (elementToTag n lib classes element attrs theme st) (\<lambda>(dom, st').
       Returns (toText dom, st'))"

text \<open>
  \<open>renderElement(element, props, attributes, theme, session)\<close>: the session's map is
  extended by \<open>buildMap(element)\<close>, whose not returning is \<open>OutOfFuel\<close> here.
\<close>

definition renderElement ::
  "nat \<Rightarrow> libs \<Rightarrow> (ident \<Rightarrow> baseClass) \<Rightarrow> ident \<Rightarrow> jsobject \<Rightarrow> jsobject \<Rightarrow> jsobject \<Rightarrow> ssrState
     \<Rightarrow> (string \<times> ssrState) outcome" where
  "renderElement n lib classes element props0 attrs theme st =
     (case buildMap classes element Map.empty of
        None \<Rightarrow> OutOfFuel
      | Some built \<Rightarrow>
          render n lib classes element (spread (spread [] props0) attrs) theme
            (st\<lparr>session := (session st)\<lparr>elementMap := elementMap (session st) ++ built\<rparr>\<rparr>))"

subsection \<open>Vocabulary for the statements about CSS scoping\<close>







definition globalSheetTemplate :: templateFn where
  "globalSheetTemplate =
     \<lparr>tid = 20, template = Some (\<lambda>_ _ _. Inr (RString ''.g'')), changeOn = CT_THEME\<rparr>"

definition uniqueSheetTemplate :: templateFn where
  "uniqueSheetTemplate =
     \<lparr>tid = 21, template = Some (\<lambda>_ _ _. Inr (RString ''.u'')), changeOn = CT_PROP\<rparr>"


definition freshState :: ssrState where
  "freshState = \<lparr>session = newDocumentSession, memo = emptyWorld, nextObject = 2\<rparr>"


subsection \<open>Properties of CSS scoping\<close>



















lemma showNat_digits: "showNat 0 = ''0''" "showNat (Suc 0) = ''1''"
  by code_simp+

lemma CT_more:
  "CT_ALWAYS AND CT_THEME \<noteq> 0" "CT_THEME AND CT_NEVER = 0"
  "CT_THEME AND CT_ALWAYS = 2" "CT_PROP AND CT_ALWAYS = 1"
  by (simp_all add: CT_PROP_def CT_NEVER_def CT_ALWAYS_def CT_THEME_def)




subsection \<open>Vocabulary for the statements about repeated renders\<close>

text \<open>
  Two calls of \<open>renderElement\<close> share what is outside the session: the template cache of
  template-fn.ts, which outlives every render, and the identities of the objects made so
  far. A template function, a constructor and a parser are functions of their arguments
  here, which is what it is for them to be deterministic; the identity of the instance a
  template is rendered for is not among the arguments of the template function.
\<close>

text \<open>
  \<open>freshIds st\<close>: the cache has no entry for a component that does not exist yet. It
  holds of an empty cache.
\<close>

definition freshIds :: "ssrState \<Rightarrow> bool" where
  "freshIds st =
     (\<forall>templater c t. nextObject st \<le> c \<longrightarrow> cacheEntry (memo st) templater c t = None)"

text \<open>
  The result of a call without the state it leaves: the returned value, the error thrown,
  or no result.
\<close>

definition outputOf :: "('a \<times> 's) outcome \<Rightarrow> 'a outcome" where
  "outputOf r = (case r of Returns (x, s) \<Rightarrow> Returns x | Throws e \<Rightarrow> Throws e | OutOfFuel \<Rightarrow> OutOfFuel)"

text \<open>
  Two states seen from two runs, the first making its objects from \<open>k1\<close> on and the second
  from \<open>k2\<close> on: the sessions are equal, both runs have made the same number of objects,
  and the cache of the first holds for its \<open>j\<close>-th object what the cache of the second
  holds for its \<open>j\<close>-th object.
\<close>

definition related :: "nat \<Rightarrow> nat \<Rightarrow> ssrState \<Rightarrow> ssrState \<Rightarrow> bool" where
  "related k1 k2 s1 s2 =
     (session s1 = session s2
      \<and> (\<exists>d. nextObject s1 = k1 + d \<and> nextObject s2 = k2 + d)
      \<and> (\<forall>j templater t. cacheEntry (memo s1) templater (k1 + j) t
                           = cacheEntry (memo s2) templater (k2 + j) t))"

text \<open>Two results that agree, with states in the relation \<open>R\<close> when both return.\<close>

definition relO :: "('s \<Rightarrow> 's \<Rightarrow> bool) \<Rightarrow> ('a \<times> 's) outcome \<Rightarrow> ('a \<times> 's) outcome \<Rightarrow> bool" where
  "relO R o1 o2 =
     (case o1 of
        Returns (x, s1) \<Rightarrow> (case o2 of Returns (y, s2) \<Rightarrow> x = y \<and> R s1 s2 | _ \<Rightarrow> False)
      | Throws e1 \<Rightarrow> (case o2 of Throws e2 \<Rightarrow> e1 = e2 | _ \<Rightarrow> False)
      | OutOfFuel \<Rightarrow> (case o2 of OutOfFuel \<Rightarrow> True | _ \<Rightarrow> False))"

text \<open>
  What \<open>renderWithTemplater\<close> does with the template map of its (templater, component)
  pair, written as a function of that map and of the state of the component: the result
  and the map afterwards. The identity of the component does not occur in it.
\<close>

definition renderCore ::
  "templateFn \<Rightarrow> nat \<Rightarrow> componentState \<Rightarrow> ident \<Rightarrow> templateMap
     \<Rightarrow> (error + renderOutcome) \<times> templateMap" where
  "renderCore this changeType cs templater tm =
     (let call = (case template this of None \<Rightarrow> Inl TypeError
                  | Some f \<Rightarrow> f cs templater changeType)
      in if changeOn this AND CT_NEVER \<noteq> 0 then
           (if truthy (mapGet tm (tid this))
            then (Inr \<lparr>changed = False, rendered = mapGet tm (tid this)\<rparr>, tm)
            else (case (if template this = None then Inr RNull else call) of
                    Inl e \<Rightarrow> (Inl e, tm)
                  | Inr r \<Rightarrow> (Inr \<lparr>changed = True, rendered = r\<rparr>, tm(tid this \<mapsto> r))))
         else if changeOn this AND changeType \<noteq> 0 \<or> tm (tid this) = None then
           (case call of
              Inl e \<Rightarrow> (Inl e, tm)
            | Inr r \<Rightarrow> (Inr \<lparr>changed = True, rendered = r\<rparr>, tm(tid this \<mapsto> r)))
         else (Inr \<lparr>changed = False, rendered = mapGet tm (tid this)\<rparr>, tm))"

text \<open>
  \<open>settled k st\<close>: the cache has no entry for a component that does not exist yet, and
  the objects below \<open>k\<close> exist. \<open>keeps I m\<close>: if the call \<open>m\<close> returns, \<open>I\<close> holds of the
  state it leaves.
\<close>

definition settled :: "nat \<Rightarrow> ssrState \<Rightarrow> bool" where
  "settled k st = (freshIds st \<and> k \<le> nextObject st)"

definition keeps :: "('s \<Rightarrow> bool) \<Rightarrow> ('a \<times> 's) outcome \<Rightarrow> bool" where
  "keeps I m = (case m of Returns (x, s) \<Rightarrow> I s | Throws e \<Rightarrow> True | OutOfFuel \<Rightarrow> True)"

text \<open>
  A page for concrete runs: \<open>x-app\<close>, whose markup is one \<open>x-item\<close> and which has a global
  sheet, and its dependency \<open>x-item\<close>, whose markup is a paragraph and which has a unique
  sheet. The stand-in for the HTML parser knows these two markups and reads any other
  text as one \<open>style\<close> element around it.
\<close>

definition pageLib :: libs where
  "pageLib =
     \<lparr>parseHTML = (\<lambda>text. if text = [] then []
         else if text = ''<x-item></x-item>'' then [Element ''x-item'' [] []]
         else if text = ''<p>hi</p>'' then [Element ''p'' [] [DataNode ''hi'']]
         else [Element ''style'' [] [DataNode text]]),
      parseCSS = (\<lambda>text. Inr (Some [CssRule (Some [text]) []])),
      stringifyCSS = (\<lambda>sheet. case sheet of Some [CssRule (Some [sel]) rest] \<Rightarrow> sel | _ \<Rightarrow> [])\<rparr>"

definition plainConstruct :: "string \<Rightarrow> jsobject \<Rightarrow> jsobject \<Rightarrow> constructed" where
  "plainConstruct name attrs theme = \<lparr>iProps = [], iConfig = None, iAttributes = []\<rparr>"

definition appHtml :: templateFn where
  "appHtml = \<lparr>tid = 30, template = Some (\<lambda>_ _ _. Inr (RString ''<x-item></x-item>'')),
     changeOn = CT_PROP\<rparr>"

definition itemHtml :: templateFn where
  "itemHtml = \<lparr>tid = 31, template = Some (\<lambda>_ _ _. Inr (RString ''<p>hi</p>'')), changeOn = CT_NEVER\<rparr>"

definition pageClasses :: "ident \<Rightarrow> baseClass" where
  "pageClasses =
     (\<lambda>_. \<lparr>is_tag = None, dependencies = None, html = None, css = [], construct = plainConstruct\<rparr>)
     (10 := \<lparr>is_tag = Some ''x-app'', dependencies = Some [11], html = Some appHtml,
              css = [globalSheetTemplate], construct = plainConstruct\<rparr>,
      11 := \<lparr>is_tag = Some ''x-item'', dependencies = None, html = Some itemHtml,
              css = [uniqueSheetTemplate], construct = plainConstruct\<rparr>)"

definition pageText :: string where
  "pageText = ''<x-app><style>css-x-app-.g</style><x-item class=\"css-x-app-0 css-x-app\">''
     @ ''<style>css-x-item-0-.u</style><p class=\"css-x-item-0 css-x-item\">hi</p></x-item></x-app>''"

subsection \<open>Properties of repeated renders\<close>

text \<open>Results that agree are carried through the sequencing, the loops and the walk.\<close>

lemma relO_simps [simp]:
  "relO R (Returns (x, s1)) (Returns (y, s2)) \<longleftrightarrow> x = y \<and> R s1 s2"
  "relO R (Throws e1) (Throws e2) \<longleftrightarrow> e1 = e2"
  "relO R OutOfFuel OutOfFuel"
  "\<not> relO R (Returns p) (Throws e)" "\<not> relO R (Returns p) OutOfFuel"
  "\<not> relO R (Throws e) (Returns p)" "\<not> relO R (Throws e) OutOfFuel"
  "\<not> relO R OutOfFuel (Returns p)" "\<not> relO R OutOfFuel (Throws e)"
  by (auto simp: relO_def split: prod.splits)

lemma relO_outputOf: "relO R o1 o2 \<Longrightarrow> outputOf o1 = outputOf o2"
  by (cases o1; cases o2) (auto simp: outputOf_def split: prod.splits)

lemma relO_bindO:
  assumes "relO R m1 m2"
    and "\<And>x s1 s2. R s1 s2 \<Longrightarrow> relO R' (f1 (x, s1)) (f2 (x, s2))"
  shows "relO R' (bindO m1 f1) (bindO m2 f2)"
proof (cases m1)
  case (Returns p1)
  obtain x s1 where p1: "p1 = (x, s1)" by (cases p1)
  from assms(1) Returns p1 obtain s2 where m2: "m2 = Returns (x, s2)" and "R s1 s2"
    by (cases m2) (auto split: prod.splits)
  with assms(2) Returns p1 show ?thesis by simp
next
  case (Throws e)
  with assms(1) have "m2 = Throws e" by (cases m2) auto
  with Throws show ?thesis by simp
next
  case OutOfFuel
  with assms(1) have "m2 = OutOfFuel" by (cases m2) auto
  with OutOfFuel show ?thesis by simp
qed

lemma relO_bindO_pure:
  assumes "\<And>x. relO R (f1 x) (f2 x)"
  shows "relO R (bindO m f1) (bindO m f2)"
  using assms by (cases m) simp_all

lemma relO_mapWalk:
  assumes "\<And>i t s1 s2. R s1 s2 \<Longrightarrow> relO R (f i t s1) (f i t s2)"
    and "R s1 s2"
  shows "relO R (mapWalk f i ts s1) (mapWalk f i ts s2)"
  using assms(2)
proof (induction ts arbitrary: i s1 s2)
  case Nil
  then show ?case by simp
next
  case (Cons t ts)
  show ?case
    unfolding mapWalk.simps
  proof (rule relO_bindO [OF assms(1) [OF Cons.prems]])
    fix x s1' s2' assume r: "R s1' s2'"
    show "relO R (case (x, s1') of (t', s1) \<Rightarrow>
              bindO (mapWalk f (Suc i) ts s1) (\<lambda>(ts', s2). Returns (t' # ts', s2)))
            (case (x, s2') of (t', s1) \<Rightarrow>
              bindO (mapWalk f (Suc i) ts s1) (\<lambda>(ts', s2). Returns (t' # ts', s2)))"
      unfolding prod.case
      by (rule relO_bindO [OF Cons.IH [OF r]]) simp
  qed
qed

lemma relO_mapO:
  assumes "\<And>x s1 s2. R s1 s2 \<Longrightarrow> relO R (f1 x s1) (f2 x s2)"
    and "R s1 s2"
  shows "relO R (mapO f1 xs s1) (mapO f2 xs s2)"
  using assms(2)
proof (induction xs arbitrary: s1 s2)
  case Nil
  then show ?case by simp
next
  case (Cons x xs)
  show ?case
    unfolding mapO.simps
  proof (rule relO_bindO [OF assms(1) [OF Cons.prems]])
    fix y s1' s2' assume r: "R s1' s2'"
    show "relO R (case (y, s1') of (y, s1) \<Rightarrow>
              bindO (mapO f1 xs s1) (\<lambda>(ys, s2). Returns (y # ys, s2)))
            (case (y, s2') of (y, s1) \<Rightarrow>
              bindO (mapO f2 xs s1) (\<lambda>(ys, s2). Returns (y # ys, s2)))"
      unfolding prod.case
      by (rule relO_bindO [OF Cons.IH [OF r]]) simp
  qed
qed

lemma relO_walk:
  assumes "\<And>p t s1 s2. R s1 s2 \<Longrightarrow> relO R (h p t s1) (h p t s2)"
    and "R s1 s2"
  shows "relO R (walk n h p t s1) (walk n h p t s2)"
  using assms(2)
proof (induction n arbitrary: p t s1 s2)
  case 0
  show ?case by simp
next
  case (Suc n)
  show ?case
  proof (cases "isTextTag t")
    case True
    with Suc.prems show ?thesis by simp
  next
    case False
    have "relO R
       (bindO (h p t s1) (\<lambda>(result, s1).
        (case (case result of None \<Rightarrow> (t, True) | Some r \<Rightarrow> r) of
           (newTag, stop) \<Rightarrow>
             if isTextTag newTag \<or> stop then Returns (newTag, s1)
             else bindO (mapWalk (\<lambda>i c. walk n h (p @ [i]) c) 0 (childrenOf newTag) s1)
                    (\<lambda>(cs, s2). Returns (setChildren cs (copy newTag), s2)))))
       (bindO (h p t s2) (\<lambda>(result, s1).
        (case (case result of None \<Rightarrow> (t, True) | Some r \<Rightarrow> r) of
           (newTag, stop) \<Rightarrow>
             if isTextTag newTag \<or> stop then Returns (newTag, s1)
             else bindO (mapWalk (\<lambda>i c. walk n h (p @ [i]) c) 0 (childrenOf newTag) s1)
                    (\<lambda>(cs, s2). Returns (setChildren cs (copy newTag), s2)))))"
    proof (rule relO_bindO [OF assms(1) [OF Suc.prems]])
      fix result s1' s2' assume r: "R s1' s2'"
      obtain newTag stop where ns: "(case result of None \<Rightarrow> (t, True) | Some r \<Rightarrow> r) = (newTag, stop)"
        by (cases "case result of None \<Rightarrow> (t, True) | Some r \<Rightarrow> r")
      have "relO R (mapWalk (\<lambda>i c. walk n h (p @ [i]) c) 0 (childrenOf newTag) s1')
                   (mapWalk (\<lambda>i c. walk n h (p @ [i]) c) 0 (childrenOf newTag) s2')"
        by (rule relO_mapWalk [where R = R and f = "\<lambda>i c. walk n h (p @ [i]) c"], rule Suc.IH, assumption, rule r)
      then have "relO R
          (bindO (mapWalk (\<lambda>i c. walk n h (p @ [i]) c) 0 (childrenOf newTag) s1')
                    (\<lambda>(cs, s2). Returns (setChildren cs (copy newTag), s2)))
          (bindO (mapWalk (\<lambda>i c. walk n h (p @ [i]) c) 0 (childrenOf newTag) s2')
                    (\<lambda>(cs, s2). Returns (setChildren cs (copy newTag), s2)))"
        by (rule relO_bindO) simp
      with r show "relO R
         (case (result, s1') of (result, s1) \<Rightarrow>
          (case (case result of None \<Rightarrow> (t, True) | Some r \<Rightarrow> r) of
           (newTag, stop) \<Rightarrow>
             if isTextTag newTag \<or> stop then Returns (newTag, s1)
             else bindO (mapWalk (\<lambda>i c. walk n h (p @ [i]) c) 0 (childrenOf newTag) s1)
                    (\<lambda>(cs, s2). Returns (setChildren cs (copy newTag), s2))))
         (case (result, s2') of (result, s1) \<Rightarrow>
          (case (case result of None \<Rightarrow> (t, True) | Some r \<Rightarrow> r) of
           (newTag, stop) \<Rightarrow>
             if isTextTag newTag \<or> stop then Returns (newTag, s1)
             else bindO (mapWalk (\<lambda>i c. walk n h (p @ [i]) c) 0 (childrenOf newTag) s1)
                    (\<lambda>(cs, s2). Returns (setChildren cs (copy newTag), s2))))"
        unfolding prod.case ns by simp
    qed
    with False show ?thesis by simp
  qed
qed

text \<open>
  \<open>renderWithTemplater\<close> with a templater given is \<open>renderCore\<close> on the template map of the
  pair, and it touches no other entry of the cache.
\<close>

lemma renderWithTemplater_core:
  "fst (renderWithTemplater this ct c (Some tr) w)
     = fst (renderCore this ct (cstate c) tr (getTemplateMap w tr (cid c)))"
  "cacheEntry (snd (renderWithTemplater this ct c (Some tr) w)) a b t
     = (if a = tr \<and> b = cid c
        then snd (renderCore this ct (cstate c) tr (getTemplateMap w tr (cid c))) t
        else cacheEntry w a b t)"
  by (auto simp: renderWithTemplater_def renderCore_def callTemplate_def Let_def
      cacheEntry_setTemplateMap cacheEntry_invoked_update getTemplateMap_entry
      split: option.splits sum.splits)

lemma getTemplateMap_related:
  assumes "related k1 k2 s1 s2"
  shows "getTemplateMap (memo s1) tr (k1 + j) = getTemplateMap (memo s2) tr (k2 + j)"
  using assms by (auto simp: related_def getTemplateMap_entry fun_eq_iff)

lemma relO_tryRender:
  assumes r: "related k1 k2 s1 s2"
    and c: "cid i1 = k1 + j" "cid i2 = k2 + j" "cstate i1 = cstate i2"
  shows "relO (related k1 k2) (tryRender i1 tmpl s1) (tryRender i2 tmpl s2)"
proof (cases tmpl)
  case None
  with r show ?thesis by (simp add: tryRender_def)
next
  case (Some t)
  let ?r1 = "renderWithTemplater t CT_ALWAYS i1 (Some textRendererId) (memo s1)"
  let ?r2 = "renderWithTemplater t CT_ALWAYS i2 (Some textRendererId) (memo s2)"
  have core: "renderCore t CT_ALWAYS (cstate i2) textRendererId
        (getTemplateMap (memo s1) textRendererId (k1 + j))
      = renderCore t CT_ALWAYS (cstate i2) textRendererId
        (getTemplateMap (memo s2) textRendererId (k2 + j))"
    using getTemplateMap_related [OF r, of textRendererId j] by simp
  have f: "fst ?r1 = fst ?r2"
    by (simp add: renderWithTemplater_core(1) c core)
  have e: "cacheEntry (snd ?r1) a (k1 + j') x = cacheEntry (snd ?r2) a (k2 + j') x" for a j' x
  proof (cases "a = textRendererId \<and> j' = j")
    case True
    then show ?thesis by (simp add: renderWithTemplater_core(2) c core)
  next
    case False
    moreover from r have "cacheEntry (memo s1) a (k1 + j') x = cacheEntry (memo s2) a (k2 + j') x"
      by (simp add: related_def)
    ultimately show ?thesis by (auto simp: renderWithTemplater_core(2) c)
  qed
  obtain res1 w1 where r1: "?r1 = (res1, w1)" by (cases ?r1)
  obtain res2 w2 where r2: "?r2 = (res2, w2)" by (cases ?r2)
  from f r1 r2 have res: "res2 = res1" by simp
  from e r1 r2 have w: "cacheEntry w1 a (k1 + j') x = cacheEntry w2 a (k2 + j') x" for a j' x
    by simp
  have rel: "related k1 k2 (s1\<lparr>memo := w1\<rparr>) (s2\<lparr>memo := w2\<rparr>)"
    using r w by (simp add: related_def)
  show ?thesis
    using rel
    by (cases res1) (auto simp: tryRender_def Some renderAsText_def r1 r2 res
        split: renderResult.splits sum.splits)
qed


lemma relO_parseElementCSS:
  assumes r: "related k1 k2 s1 s2"
    and c: "cid i1 = k1 + j" "cid i2 = k2 + j" "cstate i1 = cstate i2"
  shows "relO (related k1 k2) (parseElementCSS lib templates i1 s1)
           (parseElementCSS lib templates i2 s2)"
  unfolding parseElementCSS_def
proof (rule relO_mapO [where R = "related k1 k2", OF _ r])
  fix tmpl s1' s2' assume r': "related k1 k2 s1' s2'"
  show "relO (related k1 k2)
     (bindO (tryRender i1 (Some tmpl) s1') (\<lambda>(text, s1).
          Returns (map (setChangeOn (changeOn tmpl)) (filter isTag (parse lib True text)), s1)))
     (bindO (tryRender i2 (Some tmpl) s2') (\<lambda>(text, s1).
          Returns (map (setChangeOn (changeOn tmpl)) (filter isTag (parse lib True text)), s1)))"
    by (rule relO_bindO [OF relO_tryRender [OF r' c]]) simp
qed

lemma relO_addHTMLPrefixes:
  assumes "R s1 s2"
  shows "relO R (addHTMLPrefixes n tags u c s1) (addHTMLPrefixes n tags u c s2)"
  unfolding addHTMLPrefixes_def
proof (rule relO_mapWalk [where R = R, OF _ assms])
  fix i t s1' s2' assume "R s1' s2'"
  then show "relO R (walk n (htmlPrefixHandler u c) [i] t s1') (walk n (htmlPrefixHandler u c) [i] t s2')"
    by (rule relO_walk [where R = R, rotated]) (simp add: htmlPrefixHandler_def Let_def)
qed

lemma related_session_update:
  "related k1 k2 s1 s2 \<Longrightarrow> related k1 k2 (s1\<lparr>session := x\<rparr>) (s2\<lparr>session := x\<rparr>)"
  by (simp add: related_def)

lemma related_session: "related k1 k2 s1 s2 \<Longrightarrow> session s1 = session s2"
  by (simp add: related_def)

lemma relO_getCSSApplied:
  assumes r: "related k1 k2 s1 s2"
    and c: "cid i1 = k1 + j" "cid i2 = k2 + j" "cstate i1 = cstate i2"
  shows "relO (related k1 k2) (getCSSApplied n lib e templates i1 name kids s1)
           (getCSSApplied n lib e templates i2 name kids s2)"
proof -
  obtain uid session1 where g: "generateUniqueID e name (session s1) = (uid, session1)"
    by (cases "generateUniqueID e name (session s1)")
  with r have g2: "generateUniqueID e name (session s2) = (uid, session1)"
    by (simp add: related_def)
  have r1: "related k1 k2 (s1\<lparr>session := session1\<rparr>) (s2\<lparr>session := session1\<rparr>)"
    using r by (rule related_session_update)
  show ?thesis
    unfolding getCSSApplied_def g g2 prod.case Let_def
  proof (rule relO_bindO [OF relO_parseElementCSS [OF r1 c]])
    fix parsed s1' s2' assume r2: "related k1 k2 s1' s2'"
    show "relO (related k1 k2)
       (case (parsed, s1') of (parsed, st2) \<Rightarrow>
          bindO (liftE (addCSSPrefixes lib parsed uid (generateComponentID name))) (\<lambda>prefixed.
            bindO (addHTMLPrefixes n kids uid (generateComponentID name) st2) (\<lambda>(htmlPrefixed, st3).
              Returns
                ((if e \<notin> sheetSet (session st3) then filter elementGlobal (concat prefixed) else [])
                   @ filter (\<lambda>s. \<not> elementGlobal s) (concat prefixed) @ htmlPrefixed,
                 st3\<lparr>session := (session st3)\<lparr>sheetSet := insert e (sheetSet (session st3))\<rparr>\<rparr>))))
       (case (parsed, s2') of (parsed, st2) \<Rightarrow>
          bindO (liftE (addCSSPrefixes lib parsed uid (generateComponentID name))) (\<lambda>prefixed.
            bindO (addHTMLPrefixes n kids uid (generateComponentID name) st2) (\<lambda>(htmlPrefixed, st3).
              Returns
                ((if e \<notin> sheetSet (session st3) then filter elementGlobal (concat prefixed) else [])
                   @ filter (\<lambda>s. \<not> elementGlobal s) (concat prefixed) @ htmlPrefixed,
                 st3\<lparr>session := (session st3)\<lparr>sheetSet := insert e (sheetSet (session st3))\<rparr>\<rparr>))))"
      unfolding prod.case
    proof (rule relO_bindO_pure)
      fix prefixed
      show "relO (related k1 k2)
         (bindO (addHTMLPrefixes n kids uid (generateComponentID name) s1') (\<lambda>(htmlPrefixed, st3).
              Returns
                ((if e \<notin> sheetSet (session st3) then filter elementGlobal (concat prefixed) else [])
                   @ filter (\<lambda>s. \<not> elementGlobal s) (concat prefixed) @ htmlPrefixed,
                 st3\<lparr>session := (session st3)\<lparr>sheetSet := insert e (sheetSet (session st3))\<rparr>\<rparr>)))
         (bindO (addHTMLPrefixes n kids uid (generateComponentID name) s2') (\<lambda>(htmlPrefixed, st3).
              Returns
                ((if e \<notin> sheetSet (session st3) then filter elementGlobal (concat prefixed) else [])
                   @ filter (\<lambda>s. \<not> elementGlobal s) (concat prefixed) @ htmlPrefixed,
                 st3\<lparr>session := (session st3)\<lparr>sheetSet := insert e (sheetSet (session st3))\<rparr>\<rparr>)))"
      proof (rule relO_bindO [OF relO_addHTMLPrefixes [where R = "related k1 k2", OF r2]])
        fix html t1 t2 assume r3: "related k1 k2 t1 t2"
        then show "relO (related k1 k2)
           (case (html, t1) of (htmlPrefixed, st3) \<Rightarrow>
              Returns
                ((if e \<notin> sheetSet (session st3) then filter elementGlobal (concat prefixed) else [])
                   @ filter (\<lambda>s. \<not> elementGlobal s) (concat prefixed) @ htmlPrefixed,
                 st3\<lparr>session := (session st3)\<lparr>sheetSet := insert e (sheetSet (session st3))\<rparr>\<rparr>))
           (case (html, t2) of (htmlPrefixed, st3) \<Rightarrow>
              Returns
                ((if e \<notin> sheetSet (session st3) then filter elementGlobal (concat prefixed) else [])
                   @ filter (\<lambda>s. \<not> elementGlobal s) (concat prefixed) @ htmlPrefixed,
                 st3\<lparr>session := (session st3)\<lparr>sheetSet := insert e (sheetSet (session st3))\<rparr>\<rparr>))"
          by (simp add: related_def)
      qed
    qed
  qed
qed


lemma relO_mapTag:
  assumes x: "\<And>element attrs theme s1 s2. related k1 k2 s1 s2 \<Longrightarrow>
      relO (related k1 k2) (expand element attrs theme s1) (expand element attrs theme s2)"
    and r: "related k1 k2 s1 s2"
  shows "relO (related k1 k2) (mapTag expand n theme p tag s1) (mapTag expand n theme p tag s2)"
proof -
  from r have s: "session s1 = session s2" by (rule related_session)
  show ?thesis
  proof (cases "isTextTag tag \<or> \<not> includesDash (tagNameOf tag)
      \<or> elementMap (session s2) (tagNameOf tag) = None")
    case True
    with r s show ?thesis by (auto simp: mapTag_def)
  next
    case False
    then obtain element where e: "elementMap (session s2) (tagNameOf tag) = Some element" by auto
    have "relO (related k1 k2)
        (bindO (expand element (attributesOf tag) theme s1) (\<lambda>(newTag, st').
               bindO (applySlots n newTag tag) (\<lambda>newTag'.
                 Returns (Some (newTag', True), st'))))
        (bindO (expand element (attributesOf tag) theme s2) (\<lambda>(newTag, st').
               bindO (applySlots n newTag tag) (\<lambda>newTag'.
                 Returns (Some (newTag', True), st'))))"
    proof (rule relO_bindO [OF x [OF r]])
      fix newTag t1 t2 assume "related k1 k2 t1 t2"
      then show "relO (related k1 k2)
           (case (newTag, t1) of (newTag, st') \<Rightarrow>
               bindO (applySlots n newTag tag) (\<lambda>newTag'. Returns (Some (newTag', True), st')))
           (case (newTag, t2) of (newTag, st') \<Rightarrow>
               bindO (applySlots n newTag tag) (\<lambda>newTag'. Returns (Some (newTag', True), st')))"
        unfolding prod.case by (intro relO_bindO_pure) simp
    qed
    with False e s show ?thesis by (simp add: mapTag_def)
  qed
qed

lemma relO_replaceTags:
  assumes x: "\<And>element attrs theme s1 s2. related k1 k2 s1 s2 \<Longrightarrow>
      relO (related k1 k2) (expand element attrs theme s1) (expand element attrs theme s2)"
    and r: "related k1 k2 s1 s2"
  shows "relO (related k1 k2) (replaceTags expand n tags theme s1) (replaceTags expand n tags theme s2)"
  unfolding replaceTags_def
proof (rule relO_mapWalk [where R = "related k1 k2", OF _ r])
  fix i t s1' s2' assume "related k1 k2 s1' s2'"
  then show "relO (related k1 k2) (walk n (mapTag expand n theme) [i] t s1')
      (walk n (mapTag expand n theme) [i] t s2')"
    by (rule relO_walk [where R = "related k1 k2", rotated]) (rule relO_mapTag [OF x])
qed

lemma relO_expandElement:
  assumes x: "\<And>element attrs theme s1 s2. related k1 k2 s1 s2 \<Longrightarrow>
      relO (related k1 k2) (expand element attrs theme s1) (expand element attrs theme s2)"
    and r: "related k1 k2 s1 s2"
  shows "relO (related k1 k2) (expandElement expand n lib cls element attrs theme s1)
           (expandElement expand n lib cls element attrs theme s2)"
proof -
  from r have s: "session s1 = session s2" by (rule related_session)
  obtain name sess where g: "resolveTagName cls (session s2) = (name, sess)"
    by (cases "resolveTagName cls (session s2)")
  define made where "made = construct cls name attrs theme"
  have rt: "related k1 k2 (s1\<lparr>session := sess\<rparr>) (s2\<lparr>session := sess\<rparr>)"
    using r by (rule related_session_update)
  then obtain d where d: "nextObject s1 = k1 + d" "nextObject s2 = k2 + d"
    by (auto simp: related_def)
  obtain i1 u1 where n1: "newInstance made name attrs theme (s1\<lparr>session := sess\<rparr>) = (i1, u1)"
    by (cases "newInstance made name attrs theme (s1\<lparr>session := sess\<rparr>)")
  obtain i2 u2 where n2: "newInstance made name attrs theme (s2\<lparr>session := sess\<rparr>) = (i2, u2)"
    by (cases "newInstance made name attrs theme (s2\<lparr>session := sess\<rparr>)")
  from n1 n2 d have c: "cid i1 = k1 + d" "cid i2 = k2 + d" "cstate i1 = cstate i2"
    by (auto simp: newInstance_def)
  from n1 n2 rt d have ru: "related k1 k2 u1 u2"
    by (auto simp: newInstance_def related_def intro: exI [of _ "Suc d"])
  show ?thesis
    unfolding expandElement_def s g prod.case Let_def made_def [symmetric] n1 n2 c(3)
  proof (rule relO_bindO [OF relO_tryRender [OF ru c]])
    fix markup v1 v2 assume rv: "related k1 k2 v1 v2"
    show "relO (related k1 k2)
       (case (markup, v1) of (text, st3) \<Rightarrow>
          bindO (replaceTags expand n (parse lib False text) theme st3) (\<lambda>(kids, st4).
            bindO (getCSSApplied n lib element (css cls) i1 name kids st4)
              (\<lambda>(cssApplied, st5).
                 Returns
                   (Tag name
                      (spread (spread (spread [] (attributes (splitAttributes (cstate i2) attrs)))
                         (publicProps (splitAttributes (cstate i2) attrs))) (iAttributes made))
                      False cssApplied,
                    st5))))
       (case (markup, v2) of (text, st3) \<Rightarrow>
          bindO (replaceTags expand n (parse lib False text) theme st3) (\<lambda>(kids, st4).
            bindO (getCSSApplied n lib element (css cls) i2 name kids st4)
              (\<lambda>(cssApplied, st5).
                 Returns
                   (Tag name
                      (spread (spread (spread [] (attributes (splitAttributes (cstate i2) attrs)))
                         (publicProps (splitAttributes (cstate i2) attrs))) (iAttributes made))
                      False cssApplied,
                    st5))))"
      unfolding prod.case
    proof (rule relO_bindO [OF relO_replaceTags [OF x rv]])
      fix kids x1 x2 assume rx: "related k1 k2 x1 x2"
      show "relO (related k1 k2)
         (case (kids, x1) of (kids, st4) \<Rightarrow>
            bindO (getCSSApplied n lib element (css cls) i1 name kids st4)
              (\<lambda>(cssApplied, st5).
                 Returns
                   (Tag name
                      (spread (spread (spread [] (attributes (splitAttributes (cstate i2) attrs)))
                         (publicProps (splitAttributes (cstate i2) attrs))) (iAttributes made))
                      False cssApplied,
                    st5)))
         (case (kids, x2) of (kids, st4) \<Rightarrow>
            bindO (getCSSApplied n lib element (css cls) i2 name kids st4)
              (\<lambda>(cssApplied, st5).
                 Returns
                   (Tag name
                      (spread (spread (spread [] (attributes (splitAttributes (cstate i2) attrs)))
                         (publicProps (splitAttributes (cstate i2) attrs))) (iAttributes made))
                      False cssApplied,
                    st5)))"
        unfolding prod.case
        by (rule relO_bindO [OF relO_getCSSApplied [OF rx c]]) simp
    qed
  qed
qed

lemma relO_elementToTag:
  assumes "related k1 k2 s1 s2"
  shows "relO (related k1 k2) (elementToTag n lib classes element attrs theme s1)
           (elementToTag n lib classes element attrs theme s2)"
  using assms
proof (induction n arbitrary: element attrs theme s1 s2)
  case 0
  show ?case by simp
next
  case (Suc n)
  show ?case
    unfolding elementToTag.simps
    by (rule relO_expandElement [OF Suc.IH Suc.prems])
qed

lemma related_fresh:
  assumes "freshIds s1" "freshIds s2" "session s1 = session s2"
  shows "related (nextObject s1) (nextObject s2) s1 s2"
  using assms by (auto simp: related_def freshIds_def)

text \<open>
  The output of \<open>renderElement\<close> with a new session is the same from any two states whose
  caches hold nothing for the objects still to be made; this covers a result, an error
  and a run that does not end.
\<close>

lemma render_independent_of_cache:
  assumes "freshIds s1" and "freshIds s2"
    and "session s1 = newDocumentSession" and "session s2 = newDocumentSession"
  shows "outputOf (renderElement n lib classes element props0 attrs theme s1)
       = outputOf (renderElement n lib classes element props0 attrs theme s2)"
proof (cases "buildMap classes element Map.empty")
  case None
  then show ?thesis by (simp add: renderElement_def)
next
  case (Some built)
  let ?k1 = "nextObject s1" and ?k2 = "nextObject s2"
  let ?sess = "newDocumentSession\<lparr>elementMap := elementMap newDocumentSession ++ built\<rparr>"
  from assms have "related ?k1 ?k2 s1 s2" by (intro related_fresh) simp_all
  then have r: "related ?k1 ?k2 (s1\<lparr>session := ?sess\<rparr>) (s2\<lparr>session := ?sess\<rparr>)"
    by (rule related_session_update)
  have "relO (related ?k1 ?k2)
      (render n lib classes element (spread (spread [] props0) attrs) theme (s1\<lparr>session := ?sess\<rparr>))
      (render n lib classes element (spread (spread [] props0) attrs) theme (s2\<lparr>session := ?sess\<rparr>))"
    unfolding render_def
    by (rule relO_bindO [OF relO_elementToTag [OF r]]) simp
  then show ?thesis
    using assms(3,4) by (simp add: renderElement_def Some relO_outputOf)
qed

text \<open>A render leaves a cache that holds nothing for the objects still to be made.\<close>

lemma keeps_simps [simp]:
  "keeps I (Returns (x, s)) \<longleftrightarrow> I s" "keeps I (Throws e)" "keeps I OutOfFuel"
  by (simp_all add: keeps_def)

lemma keeps_bindO:
  assumes "keeps I m" and "\<And>x s. I s \<Longrightarrow> keeps J (f (x, s))"
  shows "keeps J (bindO m f)"
proof (cases m)
  case (Returns p)
  obtain x s where "p = (x, s)" by (cases p)
  with assms Returns show ?thesis by simp
qed simp_all

lemma keeps_bindO_pure:
  assumes "\<And>x. keeps J (f x)"
  shows "keeps J (bindO m f)"
  using assms by (cases m) simp_all

lemma keeps_weaken:
  assumes "keeps I m" and "\<And>s. I s \<Longrightarrow> J s"
  shows "keeps J m"
proof (cases m)
  case (Returns p)
  obtain x s where "p = (x, s)" by (cases p)
  with assms Returns show ?thesis by simp
qed simp_all

lemma keeps_mapWalk:
  assumes "\<And>i t s. I s \<Longrightarrow> keeps I (f i t s)" and "I s"
  shows "keeps I (mapWalk f i ts s)"
  using assms(2)
proof (induction ts arbitrary: i s)
  case Nil
  then show ?case by simp
next
  case (Cons t ts)
  show ?case
    unfolding mapWalk.simps
  proof (rule keeps_bindO [OF assms(1) [OF Cons.prems]])
    fix x s' assume i: "I s'"
    show "keeps I (case (x, s') of (t', s1) \<Rightarrow>
              bindO (mapWalk f (Suc i) ts s1) (\<lambda>(ts', s2). Returns (t' # ts', s2)))"
      unfolding prod.case
      by (rule keeps_bindO [OF Cons.IH [OF i]]) simp
  qed
qed

lemma keeps_mapO:
  assumes "\<And>x s. I s \<Longrightarrow> keeps I (f x s)" and "I s"
  shows "keeps I (mapO f xs s)"
  using assms(2)
proof (induction xs arbitrary: s)
  case Nil
  then show ?case by simp
next
  case (Cons x xs)
  show ?case
    unfolding mapO.simps
  proof (rule keeps_bindO [OF assms(1) [OF Cons.prems]])
    fix y s' assume i: "I s'"
    show "keeps I (case (y, s') of (y, s1) \<Rightarrow>
              bindO (mapO f xs s1) (\<lambda>(ys, s2). Returns (y # ys, s2)))"
      unfolding prod.case
      by (rule keeps_bindO [OF Cons.IH [OF i]]) simp
  qed
qed

lemma keeps_walk:
  assumes "\<And>p t s. I s \<Longrightarrow> keeps I (h p t s)" and "I s"
  shows "keeps I (walk n h p t s)"
  using assms(2)
proof (induction n arbitrary: p t s)
  case 0
  show ?case by simp
next
  case (Suc n)
  show ?case
  proof (cases "isTextTag t")
    case True
    with Suc.prems show ?thesis by simp
  next
    case False
    have "keeps I
       (bindO (h p t s) (\<lambda>(result, s1).
        (case (case result of None \<Rightarrow> (t, True) | Some r \<Rightarrow> r) of
           (newTag, stop) \<Rightarrow>
             if isTextTag newTag \<or> stop then Returns (newTag, s1)
             else bindO (mapWalk (\<lambda>i c. walk n h (p @ [i]) c) 0 (childrenOf newTag) s1)
                    (\<lambda>(cs, s2). Returns (setChildren cs (copy newTag), s2)))))"
    proof (rule keeps_bindO [OF assms(1) [OF Suc.prems]])
      fix result s' assume i: "I s'"
      obtain newTag stop where ns: "(case result of None \<Rightarrow> (t, True) | Some r \<Rightarrow> r) = (newTag, stop)"
        by (cases "case result of None \<Rightarrow> (t, True) | Some r \<Rightarrow> r")
      have "keeps I (mapWalk (\<lambda>i c. walk n h (p @ [i]) c) 0 (childrenOf newTag) s')"
        by (rule keeps_mapWalk [where I = I and f = "\<lambda>i c. walk n h (p @ [i]) c"], rule Suc.IH, assumption, rule i)
      then have "keeps I
          (bindO (mapWalk (\<lambda>i c. walk n h (p @ [i]) c) 0 (childrenOf newTag) s')
                    (\<lambda>(cs, s2). Returns (setChildren cs (copy newTag), s2)))"
        by (rule keeps_bindO) simp
      with i show "keeps I
         (case (result, s') of (result, s1) \<Rightarrow>
          (case (case result of None \<Rightarrow> (t, True) | Some r \<Rightarrow> r) of
           (newTag, stop) \<Rightarrow>
             if isTextTag newTag \<or> stop then Returns (newTag, s1)
             else bindO (mapWalk (\<lambda>i c. walk n h (p @ [i]) c) 0 (childrenOf newTag) s1)
                    (\<lambda>(cs, s2). Returns (setChildren cs (copy newTag), s2))))"
        unfolding prod.case ns by simp
    qed
    with False show ?thesis by simp
  qed
qed

lemma settled_session_update:
  "settled k s \<Longrightarrow> settled k (s\<lparr>session := x\<rparr>)"
  by (simp add: settled_def freshIds_def)

lemma keeps_tryRender:
  assumes s: "settled k s" and c: "cid inst < k"
  shows "keeps (settled k) (tryRender inst tmpl s)"
proof (cases tmpl)
  case None
  with s show ?thesis by (simp add: tryRender_def)
next
  case (Some t)
  let ?r = "renderWithTemplater t CT_ALWAYS inst (Some textRendererId) (memo s)"
  obtain res w where r: "?r = (res, w)" by (cases ?r)
  have "cacheEntry (snd ?r) a b x = None" if "nextObject s \<le> b" for a b x
  proof -
    from that s c have "b \<noteq> cid inst" by (auto simp: settled_def)
    moreover from that s have "cacheEntry (memo s) a b x = None"
      by (simp add: settled_def freshIds_def)
    ultimately show ?thesis by (simp add: renderWithTemplater_core(2))
  qed
  with r have "settled k (s\<lparr>memo := w\<rparr>)"
    using s by (simp add: settled_def freshIds_def)
  then show ?thesis
    by (cases res) (auto simp: tryRender_def Some renderAsText_def r
        split: renderResult.splits sum.splits)
qed

lemma keeps_parseElementCSS:
  assumes s: "settled k s" and c: "cid inst < k"
  shows "keeps (settled k) (parseElementCSS lib templates inst s)"
  unfolding parseElementCSS_def
proof (rule keeps_mapO [where I = "settled k", OF _ s])
  fix tmpl s' assume s': "settled k s'"
  show "keeps (settled k)
     (bindO (tryRender inst (Some tmpl) s') (\<lambda>(text, s1).
          Returns (map (setChangeOn (changeOn tmpl)) (filter isTag (parse lib True text)), s1)))"
    by (rule keeps_bindO [OF keeps_tryRender [OF s' c]]) simp
qed

lemma keeps_addHTMLPrefixes:
  assumes "I s"
  shows "keeps I (addHTMLPrefixes n tags u c s)"
  unfolding addHTMLPrefixes_def
proof (rule keeps_mapWalk [where I = I, OF _ assms])
  fix i t s' assume "I s'"
  then show "keeps I (walk n (htmlPrefixHandler u c) [i] t s')"
    by (rule keeps_walk [where I = I, rotated]) (simp add: htmlPrefixHandler_def Let_def)
qed

lemma keeps_getCSSApplied:
  assumes s: "settled k s" and c: "cid inst < k"
  shows "keeps (settled k) (getCSSApplied n lib e templates inst name kids s)"
proof -
  obtain uid session1 where g: "generateUniqueID e name (session s) = (uid, session1)"
    by (cases "generateUniqueID e name (session s)")
  have s1: "settled k (s\<lparr>session := session1\<rparr>)"
    using s by (rule settled_session_update)
  show ?thesis
    unfolding getCSSApplied_def g prod.case Let_def
  proof (rule keeps_bindO [OF keeps_parseElementCSS [OF s1 c]])
    fix parsed s' assume s2: "settled k s'"
    show "keeps (settled k)
       (case (parsed, s') of (parsed, st2) \<Rightarrow>
          bindO (liftE (addCSSPrefixes lib parsed uid (generateComponentID name))) (\<lambda>prefixed.
            bindO (addHTMLPrefixes n kids uid (generateComponentID name) st2) (\<lambda>(htmlPrefixed, st3).
              Returns
                ((if e \<notin> sheetSet (session st3) then filter elementGlobal (concat prefixed) else [])
                   @ filter (\<lambda>s. \<not> elementGlobal s) (concat prefixed) @ htmlPrefixed,
                 st3\<lparr>session := (session st3)\<lparr>sheetSet := insert e (sheetSet (session st3))\<rparr>\<rparr>))))"
      unfolding prod.case
    proof (rule keeps_bindO_pure)
      fix prefixed
      show "keeps (settled k)
         (bindO (addHTMLPrefixes n kids uid (generateComponentID name) s') (\<lambda>(htmlPrefixed, st3).
              Returns
                ((if e \<notin> sheetSet (session st3) then filter elementGlobal (concat prefixed) else [])
                   @ filter (\<lambda>s. \<not> elementGlobal s) (concat prefixed) @ htmlPrefixed,
                 st3\<lparr>session := (session st3)\<lparr>sheetSet := insert e (sheetSet (session st3))\<rparr>\<rparr>)))"
      proof (rule keeps_bindO [OF keeps_addHTMLPrefixes [where I = "settled k", OF s2]])
        fix html t assume "settled k t"
        then show "keeps (settled k)
           (case (html, t) of (htmlPrefixed, st3) \<Rightarrow>
              Returns
                ((if e \<notin> sheetSet (session st3) then filter elementGlobal (concat prefixed) else [])
                   @ filter (\<lambda>s. \<not> elementGlobal s) (concat prefixed) @ htmlPrefixed,
                 st3\<lparr>session := (session st3)\<lparr>sheetSet := insert e (sheetSet (session st3))\<rparr>\<rparr>))"
          by (simp add: settled_session_update)
      qed
    qed
  qed
qed

lemma keeps_mapTag:
  assumes x: "\<And>element attrs theme s. settled k s \<Longrightarrow>
      keeps (settled k) (expand element attrs theme s)"
    and s: "settled k s"
  shows "keeps (settled k) (mapTag expand n theme p tag s)"
proof (cases "isTextTag tag \<or> \<not> includesDash (tagNameOf tag)
      \<or> elementMap (session s) (tagNameOf tag) = None")
  case True
  with s show ?thesis by (auto simp: mapTag_def)
next
  case False
  then obtain element where e: "elementMap (session s) (tagNameOf tag) = Some element" by auto
  have "keeps (settled k)
      (bindO (expand element (attributesOf tag) theme s) (\<lambda>(newTag, st').
             bindO (applySlots n newTag tag) (\<lambda>newTag'.
               Returns (Some (newTag', True), st'))))"
  proof (rule keeps_bindO [OF x [OF s]])
    fix newTag t assume "settled k t"
    then show "keeps (settled k)
         (case (newTag, t) of (newTag, st') \<Rightarrow>
             bindO (applySlots n newTag tag) (\<lambda>newTag'. Returns (Some (newTag', True), st')))"
      unfolding prod.case by (intro keeps_bindO_pure) simp
  qed
  with False e show ?thesis by (simp add: mapTag_def)
qed

lemma keeps_replaceTags:
  assumes x: "\<And>element attrs theme s. settled k s \<Longrightarrow>
      keeps (settled k) (expand element attrs theme s)"
    and s: "settled k s"
  shows "keeps (settled k) (replaceTags expand n tags theme s)"
  unfolding replaceTags_def
proof (rule keeps_mapWalk [where I = "settled k", OF _ s])
  fix i t s' assume "settled k s'"
  then show "keeps (settled k) (walk n (mapTag expand n theme) [i] t s')"
    by (rule keeps_walk [where I = "settled k", rotated]) (rule keeps_mapTag [OF x])
qed

lemma keeps_expandElement:
  assumes x: "\<And>k element attrs theme s. settled k s \<Longrightarrow>
      keeps (settled k) (expand element attrs theme s)"
    and s: "settled k s"
  shows "keeps (settled k) (expandElement expand n lib cls element attrs theme s)"
proof -
  obtain name sess where g: "resolveTagName cls (session s) = (name, sess)"
    by (cases "resolveTagName cls (session s)")
  define made where "made = construct cls name attrs theme"
  define k' where "k' = max k (Suc (nextObject s))"
  obtain inst u where n: "newInstance made name attrs theme (s\<lparr>session := sess\<rparr>) = (inst, u)"
    by (cases "newInstance made name attrs theme (s\<lparr>session := sess\<rparr>)")
  from n have c: "cid inst < k'" by (auto simp: newInstance_def k'_def)
  from n s have su: "settled k' u"
    by (auto simp: newInstance_def settled_def freshIds_def k'_def)
  have weak: "settled k t" if "settled k' t" for t
    using that by (simp add: settled_def k'_def)
  have "keeps (settled k')
       (bindO (tryRender inst (html cls) u) (\<lambda>(text, st3).
          bindO (replaceTags expand n (parse lib False text) theme st3) (\<lambda>(kids, st4).
            bindO (getCSSApplied n lib element (css cls) inst name kids st4)
              (\<lambda>(cssApplied, st5).
                 Returns
                   (Tag name
                      (spread (spread (spread [] (attributes (splitAttributes (cstate inst) attrs)))
                         (publicProps (splitAttributes (cstate inst) attrs))) (iAttributes made))
                      False cssApplied,
                    st5)))))"
  proof (rule keeps_bindO [OF keeps_tryRender [OF su c]])
    fix markup v assume sv: "settled k' v"
    show "keeps (settled k')
       (case (markup, v) of (text, st3) \<Rightarrow>
          bindO (replaceTags expand n (parse lib False text) theme st3) (\<lambda>(kids, st4).
            bindO (getCSSApplied n lib element (css cls) inst name kids st4)
              (\<lambda>(cssApplied, st5).
                 Returns
                   (Tag name
                      (spread (spread (spread [] (attributes (splitAttributes (cstate inst) attrs)))
                         (publicProps (splitAttributes (cstate inst) attrs))) (iAttributes made))
                      False cssApplied,
                    st5))))"
      unfolding prod.case
    proof (rule keeps_bindO [OF keeps_replaceTags [OF x sv]])
      fix kids y assume sy: "settled k' y"
      show "keeps (settled k')
         (case (kids, y) of (kids, st4) \<Rightarrow>
            bindO (getCSSApplied n lib element (css cls) inst name kids st4)
              (\<lambda>(cssApplied, st5).
                 Returns
                   (Tag name
                      (spread (spread (spread [] (attributes (splitAttributes (cstate inst) attrs)))
                         (publicProps (splitAttributes (cstate inst) attrs))) (iAttributes made))
                      False cssApplied,
                    st5)))"
        unfolding prod.case
        by (rule keeps_bindO [OF keeps_getCSSApplied [OF sy c]]) simp
    qed
  qed
  then have "keeps (settled k')
      (expandElement expand n lib cls element attrs theme s)"
    unfolding expandElement_def g prod.case Let_def made_def [symmetric] n .
  then show ?thesis by (rule keeps_weaken) (rule weak)
qed

lemma keeps_elementToTag:
  assumes "settled k s"
  shows "keeps (settled k) (elementToTag n lib classes element attrs theme s)"
  using assms
proof (induction n arbitrary: k element attrs theme s)
  case 0
  show ?case by simp
next
  case (Suc n)
  show ?case
    unfolding elementToTag.simps
    by (rule keeps_expandElement [OF Suc.IH Suc.prems])
qed

lemma keeps_renderElement:
  assumes "freshIds s"
  shows "keeps freshIds (renderElement n lib classes element props0 attrs theme s)"
proof (cases "buildMap classes element Map.empty")
  case None
  then show ?thesis by (simp add: renderElement_def)
next
  case (Some built)
  let ?s = "s\<lparr>session := (session s)\<lparr>elementMap := elementMap (session s) ++ built\<rparr>\<rparr>"
  from assms have "settled 0 ?s" by (simp add: settled_def freshIds_def)
  then have "keeps (settled 0) (elementToTag n lib classes element (spread (spread [] props0) attrs) theme ?s)"
    by (rule keeps_elementToTag)
  then have "keeps (settled 0) (render n lib classes element (spread (spread [] props0) attrs) theme ?s)"
    unfolding render_def by (rule keeps_bindO) simp
  then have "keeps freshIds (render n lib classes element (spread (spread [] props0) attrs) theme ?s)"
    by (rule keeps_weaken) (simp add: settled_def)
  then show ?thesis by (simp add: renderElement_def Some)
qed

text \<open>The page rendered from a state with an empty cache.\<close>

lemma depsOf_page: "depsOf pageClasses e = (if e = 10 then [11] else [])"
  by (simp add: depsOf_def pageClasses_def)

lemma buildMap_page:
  "buildMap pageClasses 10 Map.empty = Some [''x-app'' \<mapsto> 10, ''x-item'' \<mapsto> 11]"
proof -
  have b1: "buildMap pageClasses 11 m = Some (m(''x-item'' \<mapsto> 11))" for m
    by (subst buildMap_unfold) (simp add: depsOf_page, simp add: register_def pageClasses_def)
  show ?thesis
    by (subst buildMap_unfold) (simp add: depsOf_page b1, simp add: register_def pageClasses_def)
qed

lemma page_classes:
  "pageClasses 10 = \<lparr>is_tag = Some ''x-app'', dependencies = Some [11], html = Some appHtml,
              css = [globalSheetTemplate], construct = plainConstruct\<rparr>"
  "pageClasses 11 = \<lparr>is_tag = Some ''x-item'', dependencies = None, html = Some itemHtml,
              css = [uniqueSheetTemplate], construct = plainConstruct\<rparr>"
  by (simp_all add: pageClasses_def)

lemma fuel4: "(4::nat) = Suc (Suc (Suc (Suc 0)))"
  by simp

lemma page_run:
  "\<exists>s'. renderElement 4 pageLib pageClasses 10 [] [] [] freshState = Returns (pageText, s')"
  apply (simp only: renderElement_def buildMap_page option.case fuel4)
  apply (simp add: page_classes render_def expandElement_def resolveTagName_def
      newInstance_def replaceTags_def mapTag_def applySlots_def slot_eval
      pageLib_def plainConstruct_def appHtml_def itemHtml_def pageText_def
      getCSSApplied_def generateUniqueID_def generateComponentID_def
      freshState_def newDocumentSession_def showNat_digits Let_def
      parseElementCSS_def tryRender_def renderAsText_def renderWithTemplater_def
      callTemplate_def getTemplateMap_def setTemplateMap_def mapGet_def
      globalSheetTemplate_def uniqueSheetTemplate_def eval_defs CT_simps CT_more
      parse_def addCSSPrefixes_def addCSSPrefix_def walkCSSSheets_def
      addHTMLPrefixes_def htmlPrefixHandler_def liftE_def globalMask_def textRendererId_def
      toLowerChar_def VOID_TAGS_def includesDash_def spread_def splitAttributes_def
      stringify_def dquote_def escapeQuotes_def)
  done

text \<open>
  C8. A render that returns a text, started with a new document session in a state whose
  cache holds nothing for objects still to be made, is followed by a second render of
  the same definition, props, attributes and theme, with another new document session
  and with the cache and the object identities as the first render left them. The
  second render returns the same text. Template functions, constructors and parsers are
  functions of their arguments (deterministic).
\<close>

theorem render_twice_identical:
  assumes "freshIds s" and "session s = newDocumentSession"
    and "renderElement n lib classes element props0 attrs theme s = Returns (out, s')"
  shows "outputOf (renderElement n lib classes element props0 attrs theme
                     (s'\<lparr>session := newDocumentSession\<rparr>)) = Returns out"
proof -
  from keeps_renderElement [OF assms(1), of n lib classes element props0 attrs theme] assms(3)
  have "freshIds s'" by simp
  then have f: "freshIds (s'\<lparr>session := newDocumentSession\<rparr>)" by (simp add: freshIds_def)
  have "outputOf (renderElement n lib classes element props0 attrs theme (s'\<lparr>session := newDocumentSession\<rparr>))
      = outputOf (renderElement n lib classes element props0 attrs theme s)"
    by (rule render_independent_of_cache [OF f assms(1)]) (simp_all add: assms(2))
  with assms(3) show ?thesis by (simp add: outputOf_def)
qed

theorem render_twice_identical_witness:
  "freshIds freshState \<and> session freshState = newDocumentSession
   \<and> (\<exists>s'. renderElement 4 pageLib pageClasses 10 [] [] [] freshState = Returns (pageText, s')
          \<and> outputOf (renderElement 4 pageLib pageClasses 10 [] [] []
                        (s'\<lparr>session := newDocumentSession\<rparr>)) = Returns pageText)"
proof -
  have f: "freshIds freshState"
    by (simp add: freshIds_def freshState_def cacheEntry_def emptyWorld_def)
  have s: "session freshState = newDocumentSession" by (simp add: freshState_def)
  from page_run obtain s' where
    run: "renderElement 4 pageLib pageClasses 10 [] [] [] freshState = Returns (pageText, s')"
    by blast
  from render_twice_identical [OF f s run]
  have "outputOf (renderElement 4 pageLib pageClasses 10 [] [] []
                    (s'\<lparr>session := newDocumentSession\<rparr>)) = Returns pageText" .
  with f s run show ?thesis by blast
qed

end
